theory Spec2Isabelle
  imports Complex_Main "HOL-Library.Multiset"
begin

section \<open>The CMA-ES driver \<open>run_cmaes.py\<close>\<close>

text \<open>
  The script drives an ask / evaluate / tell loop. Its two collaborators, the optimizer
  class \<open>CMA\<close> of the \<open>cmaes\<close> library and the module \<open>run_simulation\<close> (imported as
  \<open>sim\<close>), are not part of the script: they are parameters of the model. Whatever they
  keep between calls (the optimizer object, the simulator's own state) lives in one
  environment \<open>'e\<close>, which every call may change; the variable \<open>optimizer\<close> holds a
  reference \<open>'h\<close> into it. Each operation may raise. Floats are modelled as \<open>real\<close> (the
  driver only passes them on), Python integers as \<open>int\<close>. Writing to \<open>output.csv\<close> and
  to standard output is assumed to succeed; the file is modelled by the list of rows
  handed to \<open>csv.writer.writerow\<close>.
\<close>

subsection \<open>Python built-ins used by the script\<close>

datatype error = AssertionError | IndexError | SystemExit | OtherError string

text \<open>\<open>range(n)\<close>: the integers \<open>0, ..., n - 1\<close>, none when \<open>n \<le> 0\<close>.\<close>

definition py_range :: "int \<Rightarrow> int list" where
  "py_range n = map int [0..<nat n]"

text \<open>\<open>str(i)\<close> for an integer: decimal digits, with a leading minus sign when negative.\<close>

definition digit_char :: "nat \<Rightarrow> char" where
  "digit_char d = char_of (48 + d)"

fun str_nat :: "nat \<Rightarrow> string" where
  "str_nat n = (if n < 10 then [digit_char n] else str_nat (n div 10) @ [digit_char (n mod 10)])"

declare str_nat.simps [simp del]

definition str :: "int \<Rightarrow> string" where
  "str i = (if i < 0 then CHR ''-'' # str_nat (nat (- i)) else str_nat (nat i))"

subsection \<open>Data\<close>

text \<open>A cell of a CSV row is whatever the script puts into the list given to \<open>writerow\<close>.\<close>

datatype cell = CStr string | CInt int | CFloat real

type_synonym row = "cell list"

type_synonym candidate = "real list"

type_synonym solutions = "(candidate \<times> real) list"

text \<open>The two \<open>print\<close> calls of a generation.\<close>

datatype printed = PrintFitnesses "real list" | PrintBest int real

text \<open>The module \<open>run_simulation\<close>: its constants and \<open>sim.run(iters, genome, mode, label)\<close>.\<close>

record 'e simulator =
  NUM_ACTUATORS :: nat
  NUM_ITERS :: nat
  AVG_FREQ :: real
  AVG_AMP :: real
  AVG_PHASE_OFFSET :: real
  sim_run :: "'e \<Rightarrow> nat \<Rightarrow> candidate \<Rightarrow> string \<Rightarrow> string \<Rightarrow> (error + real) \<times> 'e"

text \<open>
  The class \<open>CMA\<close>: what its constructor does, the property \<open>population_size\<close>, and the
  methods \<open>ask\<close> and \<open>tell\<close>. \<open>tell\<close> is given the list object \<open>solutions\<close>, which the
  script reads again afterwards: the result of \<open>tell\<close> is that list as the call leaves
  it (the \<open>cmaes\<close> library sorts it in place, by fitness).
\<close>

record ('e, 'h) optimizer_class =
  cma_init :: "'e \<Rightarrow> real list \<Rightarrow> real \<Rightarrow> (error + 'h) \<times> 'e"
  population_size :: "'e \<Rightarrow> 'h \<Rightarrow> int \<times> 'e"
  ask :: "'e \<Rightarrow> 'h \<Rightarrow> (error + candidate) \<times> 'e"
  tell :: "'e \<Rightarrow> 'h \<Rightarrow> solutions \<Rightarrow> (error + solutions) \<times> 'e"

text \<open>Modelled from the spec: the constructor of the optimizer, \<open>CMA(mean, sigma)\<close>. It
  belongs to the \<open>cmaes\<close> library, which is not among the sources. The spec says that a
  spread \<open>sigma \<le> 0\<close> makes the initialisation fail; whatever else the constructor does
  is \<open>cma_init\<close>.
\<close>

definition CMA ::
  "('e, 'h) optimizer_class \<Rightarrow> 'e \<Rightarrow> real list \<Rightarrow> real \<Rightarrow> (error + 'h) \<times> 'e" where
  "CMA opt e mean sigma =
     (case cma_init opt e mean sigma of
        (res, e') \<Rightarrow> (if sigma \<le> 0 then Inl AssertionError else res, e'))"

text \<open>What the run can change: the file, standard output, and the environment.\<close>

record 'e world =
  output_csv :: "row list"
  stdout :: "printed list"
  env :: 'e

subsection \<open>\<open>run_cma_es\<close>\<close>

definition header_columns :: "int \<Rightarrow> row" where
  "header_columns i =
     [CStr (''frequency'' @ str i), CStr (''amplitude'' @ str i), CStr (''phase_offset'' @ str i)]"

definition csv_header :: "'e simulator \<Rightarrow> row" where
  "csv_header sim =
     foldl (\<lambda>h i. h @ header_columns i)
       [CStr ''generation'', CStr ''best_fitness'']
       (py_range (int (NUM_ACTUATORS sim)))"

definition initial_mean :: "'e simulator \<Rightarrow> real list" where
  "initial_mean sim =
     concat (replicate (NUM_ACTUATORS sim) [AVG_FREQ sim, AVG_AMP sim, AVG_PHASE_OFFSET sim])"

definition run_label :: "int \<Rightarrow> int \<Rightarrow> string" where
  "run_label generation indv_num = str generation @ ''_'' @ str indv_num"

text \<open>
  The inner loop, lines 62 to 66: one \<open>ask\<close>, one \<open>sim.run\<close> and one \<open>append\<close> per
  population slot. An exception leaves the loop with the world as it is then.
\<close>

fun collect ::
  "'e simulator \<Rightarrow> ('e, 'h) optimizer_class \<Rightarrow> string \<Rightarrow> int \<Rightarrow> int list \<Rightarrow>
   'h \<Rightarrow> solutions \<Rightarrow> 'e world \<Rightarrow> (error + solutions) \<times> 'e world" where
  "collect sim opt mode generation [] optimizer sols w = (Inr sols, w)"
| "collect sim opt mode generation (indv_num # rest) optimizer sols w =
     (case ask opt (env w) optimizer of
        (Inl e, e1) \<Rightarrow> (Inl e, w\<lparr>env := e1\<rparr>)
      | (Inr x, e1) \<Rightarrow>
          (case sim_run sim e1 (NUM_ITERS sim) x mode (run_label generation indv_num) of
             (Inl e, e2) \<Rightarrow> (Inl e, w\<lparr>env := e2\<rparr>)
           | (Inr fitness, e2) \<Rightarrow>
               collect sim opt mode generation rest optimizer (sols @ [(x, fitness)])
                 (w\<lparr>env := e2\<rparr>)))"

text \<open>
  The body of the outer loop, lines 60 to 77. After \<open>optimizer.tell(solutions)\<close> the
  script goes on with the list as \<open>tell\<close> left it. \<open>solutions[0]\<close> raises \<open>IndexError\<close>
  on an empty list, after \<open>tell\<close> and the first \<open>print\<close>.
\<close>

definition generation_body ::
  "'e simulator \<Rightarrow> ('e, 'h) optimizer_class \<Rightarrow> string \<Rightarrow> int \<Rightarrow> 'h \<Rightarrow> 'e world \<Rightarrow>
   error option \<times> 'e world" where
  "generation_body sim opt mode generation optimizer w =
     (case population_size opt (env w) optimizer of
        (p, e0) \<Rightarrow>
          (case collect sim opt mode generation (py_range p) optimizer [] (w\<lparr>env := e0\<rparr>) of
             (Inl e, w1) \<Rightarrow> (Some e, w1)
           | (Inr sols, w1) \<Rightarrow>
               (case tell opt (env w1) optimizer sols of
                  (Inl e, e2) \<Rightarrow> (Some e, w1\<lparr>env := e2\<rparr>)
                | (Inr solutions, e2) \<Rightarrow>
                    (let w3 = w1\<lparr>env := e2,
                           stdout := stdout w1 @ [PrintFitnesses (map snd solutions)]\<rparr> in
                     case solutions of
                       [] \<Rightarrow> (Some IndexError, w3)
                     | (x, fitness) # _ \<Rightarrow>
                         (let new_row = [CInt generation, CFloat fitness] @ map CFloat x in
                          (None,
                           w3\<lparr>stdout := stdout w3 @ [PrintBest generation fitness],
                              output_csv := output_csv w3 @ [new_row]\<rparr>))))))"

text \<open>The outer loop over \<open>range(gens)\<close>. The result \<open>None\<close> is a normal return.\<close>

fun generations ::
  "'e simulator \<Rightarrow> ('e, 'h) optimizer_class \<Rightarrow> string \<Rightarrow> int list \<Rightarrow> 'h \<Rightarrow> 'e world \<Rightarrow>
   error option \<times> 'e world" where
  "generations sim opt mode [] optimizer w = (None, w)"
| "generations sim opt mode (generation # rest) optimizer w =
     (case generation_body sim opt mode generation optimizer w of
        (Some e, w1) \<Rightarrow> (Some e, w1)
      | (None, w1) \<Rightarrow> generations sim opt mode rest optimizer w1)"

text \<open>
  \<open>run_cma_es(mode, gens, sigma_val)\<close>: opening the file with \<open>"w"\<close> empties it, the
  header is written, then the optimizer is built and the generations run.
\<close>

definition run_cma_es ::
  "'e simulator \<Rightarrow> ('e, 'h) optimizer_class \<Rightarrow> string \<Rightarrow> int \<Rightarrow> real \<Rightarrow> 'e world \<Rightarrow>
   error option \<times> 'e world" where
  "run_cma_es sim opt mode gens sigma_val w =
     (let w1 = w\<lparr>output_csv := [csv_header sim]\<rparr> in
      case CMA opt (env w1) (initial_mean sim) sigma_val of
        (Inl e, e1) \<Rightarrow> (Some e, w1\<lparr>env := e1\<rparr>)
      | (Inr optimizer, e1) \<Rightarrow>
          generations sim opt mode (py_range gens) optimizer (w1\<lparr>env := e1\<rparr>))"

subsection \<open>The command line\<close>

text \<open>
  The three options are declared with \<open>argparse\<close>. The model starts after \<open>argparse\<close> has
  recognised the options: the command line is the list of the options given, each with
  its value token, in the order given. \<open>--mode\<close> has no type, \<open>--gens\<close> and \<open>--sigma\<close>
  have \<open>type=int\<close>: the token goes through Python's \<open>int\<close>, and a token that \<open>int\<close>
  refuses makes \<open>argparse\<close> end the process. Tokens are taken to be ASCII. On an ASCII
  token \<open>int\<close> strips the blanks 9 to 13 and 32, and it refuses a literal of more than
  4300 digits (the default of \<open>sys.int_max_str_digits\<close>).
\<close>

definition is_space :: "char \<Rightarrow> bool" where
  "is_space c = (of_char c \<in> {9, 10, 11, 12, 13, 32 :: nat})"

definition is_digit :: "char \<Rightarrow> bool" where
  "is_digit c = (48 \<le> (of_char c :: nat) \<and> (of_char c :: nat) \<le> 57)"

definition strip :: "string \<Rightarrow> string" where
  "strip s = rev (dropWhile is_space (rev (dropWhile is_space s)))"

text \<open>Digits, with single underscores allowed between two digits.\<close>

fun digit_groups :: "string \<Rightarrow> bool" where
  "digit_groups [] = False"
| "digit_groups [c] = is_digit c"
| "digit_groups (c # d # cs) =
     (is_digit c \<and> (if d = CHR ''_'' then digit_groups cs else digit_groups (d # cs)))"

definition digits_value :: "string \<Rightarrow> int" where
  "digits_value ds =
     foldl (\<lambda>a c. 10 * a + (int (of_char c) - 48)) 0 (filter (\<lambda>c. c \<noteq> CHR ''_'') ds)"

definition int_max_str_digits :: nat where
  "int_max_str_digits = 4300"

definition literal_ok :: "string \<Rightarrow> bool" where
  "literal_ok ds \<longleftrightarrow> digit_groups ds \<and> length (filter is_digit ds) \<le> int_max_str_digits"

text \<open>\<open>int(token)\<close>; \<open>None\<close> is the \<open>ValueError\<close>.\<close>

definition py_int :: "string \<Rightarrow> int option" where
  "py_int s =
     (case strip s of
        [] \<Rightarrow> None
      | c # ds \<Rightarrow>
          if c = CHR ''-'' then (if literal_ok ds then Some (- digits_value ds) else None)
          else if c = CHR ''+'' then (if literal_ok ds then Some (digits_value ds) else None)
          else if literal_ok (c # ds) then Some (digits_value (c # ds)) else None)"

datatype cli_option = OptMode | OptGens | OptSigma

record args =
  args_mode :: string
  args_gens :: int
  args_sigma :: int

definition default_args :: args where
  "default_args = \<lparr>args_mode = ''h'', args_gens = 100, args_sigma = 2\<rparr>"

fun parse_args :: "(cli_option \<times> string) list \<Rightarrow> args \<Rightarrow> error + args" where
  "parse_args [] a = Inr a"
| "parse_args ((OptMode, v) # rest) a = parse_args rest (a\<lparr>args_mode := v\<rparr>)"
| "parse_args ((OptGens, v) # rest) a =
     (case py_int v of
        None \<Rightarrow> Inl SystemExit
      | Some n \<Rightarrow> parse_args rest (a\<lparr>args_gens := n\<rparr>))"
| "parse_args ((OptSigma, v) # rest) a =
     (case py_int v of
        None \<Rightarrow> Inl SystemExit
      | Some n \<Rightarrow> parse_args rest (a\<lparr>args_sigma := n\<rparr>))"

text \<open>The \<open>__main__\<close> block.\<close>

definition main ::
  "'e simulator \<Rightarrow> ('e, 'h) optimizer_class \<Rightarrow> (cli_option \<times> string) list \<Rightarrow> 'e world \<Rightarrow>
   error option \<times> 'e world" where
  "main sim opt argv w =
     (case parse_args argv default_args of
        Inl e \<Rightarrow> (Some e, w)
      | Inr a \<Rightarrow> run_cma_es sim opt (args_mode a) (args_gens a) (of_int (args_sigma a)) w)"

subsection \<open>Collaborators that keep a record of their calls\<close>

text \<open>
  To say which calls a run makes, the collaborators are replaced by ones that do what
  the given ones do and, each time they are called, add the call to a list kept in the
  environment: its arguments and its result (\<open>Inl\<close> when the call raised; for \<open>tell\<close>,
  the list given and the list as the call left it). The driver is the same function;
  it has no access to the list.
\<close>

datatype event =
    Init "real list" real
  | PopulationSize int
  | Ask "error + candidate"
  | Run nat candidate string string "error + real"
  | Tell solutions "error + solutions"

definition recorded_sim :: "'e simulator \<Rightarrow> (event list \<times> 'e) simulator" where
  "recorded_sim sim =
     \<lparr>NUM_ACTUATORS = NUM_ACTUATORS sim, NUM_ITERS = NUM_ITERS sim, AVG_FREQ = AVG_FREQ sim,
      AVG_AMP = AVG_AMP sim, AVG_PHASE_OFFSET = AVG_PHASE_OFFSET sim,
      sim_run = (\<lambda>le iters x mode label.
        case sim_run sim (snd le) iters x mode label of
          (res, e') \<Rightarrow> (res, (fst le @ [Run iters x mode label res], e')))\<rparr>"

definition recorded_opt :: "('e, 'h) optimizer_class \<Rightarrow> (event list \<times> 'e, 'h) optimizer_class" where
  "recorded_opt opt =
     \<lparr>cma_init = (\<lambda>le mean sigma.
        case cma_init opt (snd le) mean sigma of
          (res, e') \<Rightarrow> (res, (fst le @ [Init mean sigma], e'))),
      population_size = (\<lambda>le optimizer.
        case population_size opt (snd le) optimizer of
          (p, e') \<Rightarrow> (p, (fst le @ [PopulationSize p], e'))),
      ask = (\<lambda>le optimizer.
        case ask opt (snd le) optimizer of
          (res, e') \<Rightarrow> (res, (fst le @ [Ask res], e'))),
      tell = (\<lambda>le optimizer sols.
        case tell opt (snd le) optimizer sols of
          (res, e') \<Rightarrow> (res, (fst le @ [Tell sols res], e')))\<rparr>"

definition calls :: "(event list \<times> 'e) world \<Rightarrow> event list" where
  "calls w = fst (env w)"

definition new_calls :: "(event list \<times> 'e) world \<Rightarrow> (event list \<times> 'e) world \<Rightarrow> event list" where
  "new_calls w w' = drop (length (calls w)) (calls w')"

text \<open>The world without the record, and a world with an empty one.\<close>

definition unrecorded :: "(event list \<times> 'e) world \<Rightarrow> 'e world" where
  "unrecorded w = \<lparr>output_csv = output_csv w, stdout = stdout w, env = snd (env w)\<rparr>"

definition recording :: "'e world \<Rightarrow> (event list \<times> 'e) world" where
  "recording w = \<lparr>output_csv = output_csv w, stdout = stdout w, env = ([], env w)\<rparr>"

subsection \<open>Two small instances\<close>

text \<open>
  One actuator, a population of two. The environment counts the candidates drawn and
  the simulations run. The optimizer hands out the vectors \<open>[n, 0, 0]\<close> for
  \<open>n = 0, 1, 2, ...\<close> and its \<open>tell\<close> sorts the list by fitness, as the library's does.
  The first simulator returns the number of runs made so far, so the fitnesses of a
  generation come in ascending order; the second returns five minus that number, so
  they come in descending order.
\<close>

definition demo_sim :: "(nat \<times> nat) simulator" where
  "demo_sim = \<lparr>NUM_ACTUATORS = 1, NUM_ITERS = 5, AVG_FREQ = 1, AVG_AMP = 2,
     AVG_PHASE_OFFSET = 3,
     sim_run = (\<lambda>e iters x mode label. (Inr (real (snd e)), (fst e, Suc (snd e))))\<rparr>"

definition descending_sim :: "(nat \<times> nat) simulator" where
  "descending_sim = \<lparr>NUM_ACTUATORS = 1, NUM_ITERS = 5, AVG_FREQ = 1, AVG_AMP = 2,
     AVG_PHASE_OFFSET = 3,
     sim_run = (\<lambda>e iters x mode label. (Inr (5 - real (snd e)), (fst e, Suc (snd e))))\<rparr>"

definition demo_opt :: "(nat \<times> nat, unit) optimizer_class" where
  "demo_opt = \<lparr>cma_init = (\<lambda>e mean sigma. (Inr (), e)),
     population_size = (\<lambda>e optimizer. (2, e)),
     ask = (\<lambda>e optimizer. (Inr [real (fst e), 0, 0], (Suc (fst e), snd e))),
     tell = (\<lambda>e optimizer sols. (Inr (sort_key snd sols), e))\<rparr>"

definition demo_world :: "(event list \<times> nat \<times> nat) world" where
  "demo_world = \<lparr>output_csv = [], stdout = [], env = ([], 0, 0)\<rparr>"

text \<open>The world after two generations with the first simulator.\<close>

definition demo_final :: "(event list \<times> nat \<times> nat) world" where
  "demo_final =
      \<lparr>output_csv =
         [csv_header demo_sim,
          [CInt 0, CFloat 0, CFloat 0, CFloat 0, CFloat 0],
          [CInt 1, CFloat 2, CFloat 2, CFloat 0, CFloat 0]],
       stdout =
         [PrintFitnesses [0, 1], PrintBest 0 0, PrintFitnesses [2, 3], PrintBest 1 2],
       env =
         ([Init [1, 2, 3] 1,
           PopulationSize 2,
           Ask (Inr [0, 0, 0]), Run 5 [0, 0, 0] ''h'' ''0_0'' (Inr 0),
           Ask (Inr [1, 0, 0]), Run 5 [1, 0, 0] ''h'' ''0_1'' (Inr 1),
           Tell [([0, 0, 0], 0), ([1, 0, 0], 1)] (Inr [([0, 0, 0], 0), ([1, 0, 0], 1)]),
           PopulationSize 2,
           Ask (Inr [2, 0, 0]), Run 5 [2, 0, 0] ''h'' ''1_0'' (Inr 2),
           Ask (Inr [3, 0, 0]), Run 5 [3, 0, 0] ''h'' ''1_1'' (Inr 3),
           Tell [([2, 0, 0], 2), ([3, 0, 0], 3)] (Inr [([2, 0, 0], 2), ([3, 0, 0], 3)])],
          4, 4)\<rparr>"

text \<open>The world after one generation with the second simulator.\<close>

definition descending_final :: "(event list \<times> nat \<times> nat) world" where
  "descending_final =
      \<lparr>output_csv =
         [csv_header descending_sim,
          [CInt 0, CFloat 4, CFloat 1, CFloat 0, CFloat 0]],
       stdout = [PrintFitnesses [4, 5], PrintBest 0 4],
       env =
         ([Init [1, 2, 3] 1,
           PopulationSize 2,
           Ask (Inr [0, 0, 0]), Run 5 [0, 0, 0] ''h'' ''0_0'' (Inr 5),
           Ask (Inr [1, 0, 0]), Run 5 [1, 0, 0] ''h'' ''0_1'' (Inr 4),
           Tell [([0, 0, 0], 5), ([1, 0, 0], 4)] (Inr [([1, 0, 0], 4), ([0, 0, 0], 5)])],
          2, 2)\<rparr>"

subsection \<open>What a completed generation looks like from outside\<close>

text \<open>
  These definitions are not part of the script: they describe, in the words of the
  specification, the calls, the log row and the printed lines of a generation that ran
  to its end. Such a generation is given by the population size it read, the list of
  pairs it collected and handed to \<open>tell\<close>, and the list as \<open>tell\<close> left it. The
  theorems below compare the script with them.
\<close>

record told =
  size_read :: int
  collected :: solutions
  as_left :: solutions

text \<open>
  One population slot: a candidate is drawn, then evaluated with the fixed iteration
  budget, the mode and the label of the slot.
\<close>

definition slot_calls :: "'e simulator \<Rightarrow> string \<Rightarrow> int \<Rightarrow> int \<times> candidate \<times> real \<Rightarrow> event list" where
  "slot_calls sim mode generation slot =
     (case slot of (indv_num, x, fitness) \<Rightarrow>
        [Ask (Inr x),
         Run (NUM_ITERS sim) x mode (run_label generation indv_num) (Inr fitness)])"

definition population_calls ::
  "'e simulator \<Rightarrow> string \<Rightarrow> int \<Rightarrow> int list \<Rightarrow> solutions \<Rightarrow> event list" where
  "population_calls sim mode generation slots sols =
     concat (map (slot_calls sim mode generation) (zip slots sols))"

text \<open>
  One generation: the population size \<open>p\<close> is read, \<open>p\<close> slots follow, then the \<open>p\<close>
  collected pairs are reported in one \<open>tell\<close>, which returns normally.
\<close>

definition generation_calls :: "'e simulator \<Rightarrow> string \<Rightarrow> int \<Rightarrow> told \<Rightarrow> event list" where
  "generation_calls sim mode generation t =
     PopulationSize (size_read t)
       # population_calls sim mode generation (py_range (size_read t)) (collected t)
       @ [Tell (collected t) (Inr (as_left t))]"

text \<open>The row and the printed lines: they belong to the first pair of the list as left.\<close>

definition generation_row :: "int \<Rightarrow> told \<Rightarrow> row" where
  "generation_row generation t =
     (case as_left t of
        [] \<Rightarrow> []
      | (x, fitness) # _ \<Rightarrow> [CInt generation, CFloat fitness] @ map CFloat x)"

definition generation_prints :: "int \<Rightarrow> told \<Rightarrow> printed list" where
  "generation_prints generation t =
     (case as_left t of
        [] \<Rightarrow> []
      | (x, fitness) # _ \<Rightarrow>
          [PrintFitnesses (map snd (as_left t)), PrintBest generation fitness])"

text \<open>
  A generation that ran to its end: as many pairs collected as the population size
  read, and a \<open>tell\<close> that returned normally and left a list that is not empty.
\<close>

definition ran_to_end :: "('e, 'h) optimizer_class \<Rightarrow> told \<Rightarrow> bool" where
  "ran_to_end opt t \<longleftrightarrow>
     length (collected t) = nat (size_read t) \<and> as_left t \<noteq> [] \<and>
     (\<exists>e optimizer. fst (tell opt e optimizer (collected t)) = Inr (as_left t))"

text \<open>Projections of a record of calls.\<close>

fun drawn :: "event list \<Rightarrow> candidate list" where
  "drawn [] = []"
| "drawn (Ask (Inr x) # cs) = x # drawn cs"
| "drawn (_ # cs) = drawn cs"

fun run_args :: "event list \<Rightarrow> (nat \<times> string \<times> string) list" where
  "run_args [] = []"
| "run_args (Run iters x mode label res # cs) = (iters, mode, label) # run_args cs"
| "run_args (_ # cs) = run_args cs"

text \<open>What \<open>sim.run\<close> is given, apart from the candidate, in slot \<open>indv_num\<close>.\<close>

definition slot_run_args :: "'e simulator \<Rightarrow> string \<Rightarrow> int \<Rightarrow> int \<Rightarrow> nat \<times> string \<times> string" where
  "slot_run_args sim mode generation indv_num =
     (NUM_ITERS sim, mode, run_label generation indv_num)"



definition tell_reorders :: "('e, 'h) optimizer_class \<Rightarrow> bool" where
  "tell_reorders opt \<longleftrightarrow>
     (\<forall>e optimizer sols left. fst (tell opt e optimizer sols) = Inr left \<longrightarrow> mset left = mset sols)"

text \<open>
  For the claim about the mode: a call with its mode argument replaced, and a simulator
  that does not look at the mode it is given but behaves as under a fixed one.
\<close>

fun with_mode :: "string \<Rightarrow> event \<Rightarrow> event" where
  "with_mode m (Run iters x mode label res) = Run iters x m label res"
| "with_mode m e = e"

definition mode_blind :: "'e simulator \<Rightarrow> string \<Rightarrow> 'e simulator" where
  "mode_blind sim mode =
     sim\<lparr>sim_run := \<lambda>e iters x m label. sim_run sim e iters x mode label\<rparr>"

text \<open>The arguments of the constructor calls in a record.\<close>

fun inits :: "event list \<Rightarrow> (real list \<times> real) list" where
  "inits [] = []"
| "inits (Init mean sigma # cs) = (mean, sigma) # inits cs"
| "inits (_ # cs) = inits cs"

text \<open>The strings held by a row.\<close>

fun cell_strings :: "row \<Rightarrow> string list" where
  "cell_strings [] = []"
| "cell_strings (CStr s # cs) = s # cell_strings cs"
| "cell_strings (_ # cs) = cell_strings cs"

section \<open>Properties\<close>

subsection \<open>The branches of the two loops\<close>

lemma collect_Cons_cases:
  assumes "collect sim opt mode g (i # slots) optimizer sols w = (r, w')"
  obtains
    (ask_raised) e e1 where
      "ask opt (env w) optimizer = (Inl e, e1)" "r = Inl e" "w' = w\<lparr>env := e1\<rparr>"
  | (run_raised) x e1 e e2 where
      "ask opt (env w) optimizer = (Inr x, e1)"
      "sim_run sim e1 (NUM_ITERS sim) x mode (run_label g i) = (Inl e, e2)"
      "r = Inl e" "w' = w\<lparr>env := e2\<rparr>"
  | (evaluated) x e1 f e2 where
      "ask opt (env w) optimizer = (Inr x, e1)"
      "sim_run sim e1 (NUM_ITERS sim) x mode (run_label g i) = (Inr f, e2)"
      "collect sim opt mode g slots optimizer (sols @ [(x, f)]) (w\<lparr>env := e2\<rparr>) = (r, w')"
proof -
  obtain a e1 where a: "ask opt (env w) optimizer = (a, e1)"
    by (cases "ask opt (env w) optimizer")
  show ?thesis
  proof (cases a)
    case (Inl e)
    with assms a ask_raised [of e e1] show ?thesis by simp
  next
    case (Inr x)
    obtain res e2 where run:
      "sim_run sim e1 (NUM_ITERS sim) x mode (run_label g i) = (res, e2)"
      by (cases "sim_run sim e1 (NUM_ITERS sim) x mode (run_label g i)")
    show ?thesis
    proof (cases res)
      case (Inl e)
      with assms a Inr run run_raised [of x e1 e e2] show ?thesis by simp
    next
      case f: (Inr f)
      with assms a Inr run evaluated [of x e1 f e2] show ?thesis by simp
    qed
  qed
qed

lemma generation_body_cases:
  assumes "generation_body sim opt mode g optimizer w = (r, w')"
  obtains
    (collect_raised) p e0 e where
      "population_size opt (env w) optimizer = (p, e0)"
      "collect sim opt mode g (py_range p) optimizer [] (w\<lparr>env := e0\<rparr>) = (Inl e, w')"
      "r = Some e"
  | (tell_raised) p e0 sols w1 e e2 where
      "population_size opt (env w) optimizer = (p, e0)"
      "collect sim opt mode g (py_range p) optimizer [] (w\<lparr>env := e0\<rparr>) = (Inr sols, w1)"
      "tell opt (env w1) optimizer sols = (Inl e, e2)"
      "r = Some e" "w' = w1\<lparr>env := e2\<rparr>"
  | (index_error) p e0 sols w1 e2 where
      "population_size opt (env w) optimizer = (p, e0)"
      "collect sim opt mode g (py_range p) optimizer [] (w\<lparr>env := e0\<rparr>) = (Inr sols, w1)"
      "tell opt (env w1) optimizer sols = (Inr [], e2)"
      "r = Some IndexError"
      "w' = w1\<lparr>env := e2, stdout := stdout w1 @ [PrintFitnesses []]\<rparr>"
  | (completed) p e0 sols w1 x f rest e2 where
      "population_size opt (env w) optimizer = (p, e0)"
      "collect sim opt mode g (py_range p) optimizer [] (w\<lparr>env := e0\<rparr>) = (Inr sols, w1)"
      "tell opt (env w1) optimizer sols = (Inr ((x, f) # rest), e2)"
      "r = None"
      "w' = w1\<lparr>env := e2,
               stdout := stdout w1 @ [PrintFitnesses (f # map snd rest), PrintBest g f],
               output_csv := output_csv w1 @ [[CInt g, CFloat f] @ map CFloat x]\<rparr>"
proof -
  obtain p e0 where p: "population_size opt (env w) optimizer = (p, e0)"
    by (cases "population_size opt (env w) optimizer")
  obtain c w1 where c:
    "collect sim opt mode g (py_range p) optimizer [] (w\<lparr>env := e0\<rparr>) = (c, w1)"
    by (cases "collect sim opt mode g (py_range p) optimizer [] (w\<lparr>env := e0\<rparr>)")
  show ?thesis
  proof (cases c)
    case (Inl e)
    with p c have "generation_body sim opt mode g optimizer w = (Some e, w1)"
      by (simp add: generation_body_def)
    with assms have "r = Some e" "w1 = w'" by simp_all
    with p c Inl collect_raised show ?thesis by blast
  next
    case (Inr sols)
    with c have c':
      "collect sim opt mode g (py_range p) optimizer [] (w\<lparr>env := e0\<rparr>) = (Inr sols, w1)"
      by simp
    obtain t e2 where t: "tell opt (env w1) optimizer sols = (t, e2)"
      by (cases "tell opt (env w1) optimizer sols")
    show ?thesis
    proof (cases t)
      case (Inl e)
      with p c' t have "generation_body sim opt mode g optimizer w = (Some e, w1\<lparr>env := e2\<rparr>)"
        by (simp add: generation_body_def)
      with assms have "r = Some e" "w' = w1\<lparr>env := e2\<rparr>" by simp_all
      with p c' t Inl tell_raised show ?thesis by blast
    next
      case left: (Inr left)
      show ?thesis
      proof (cases left)
        case Nil
        with p c' t left have "generation_body sim opt mode g optimizer w
            = (Some IndexError, w1\<lparr>env := e2, stdout := stdout w1 @ [PrintFitnesses []]\<rparr>)"
          by (simp add: generation_body_def)
        with assms have "r = Some IndexError"
          "w' = w1\<lparr>env := e2, stdout := stdout w1 @ [PrintFitnesses []]\<rparr>"
          by simp_all
        with p c' t left Nil index_error show ?thesis by blast
      next
        case (Cons xf rest)
        obtain x f where xf: "xf = (x, f)" by (cases xf)
        with p c' t left Cons have "generation_body sim opt mode g optimizer w
            = (None,
               w1\<lparr>env := e2,
                  stdout := stdout w1 @ [PrintFitnesses (f # map snd rest), PrintBest g f],
                  output_csv := output_csv w1 @ [[CInt g, CFloat f] @ map CFloat x]\<rparr>)"
          by (simp add: generation_body_def)
        with assms have "r = None"
          "w' = w1\<lparr>env := e2,
                  stdout := stdout w1 @ [PrintFitnesses (f # map snd rest), PrintBest g f],
                  output_csv := output_csv w1 @ [[CInt g, CFloat f] @ map CFloat x]\<rparr>"
          by simp_all
        with p c' t left Cons xf completed show ?thesis by blast
      qed
    qed
  qed
qed

lemma run_cma_es_cases:
  assumes "run_cma_es sim opt mode gens sigma_val w = (r, w')"
  obtains
    (init_raised) e e1 where
      "CMA opt (env w) (initial_mean sim) sigma_val = (Inl e, e1)" "r = Some e"
      "w' = w\<lparr>output_csv := [csv_header sim], env := e1\<rparr>"
  | (looped) optimizer e1 where
      "CMA opt (env w) (initial_mean sim) sigma_val = (Inr optimizer, e1)"
      "generations sim opt mode (py_range gens) optimizer
         (w\<lparr>output_csv := [csv_header sim], env := e1\<rparr>) = (r, w')"
proof -
  obtain c e1 where c: "CMA opt (env w) (initial_mean sim) sigma_val = (c, e1)"
    by (cases "CMA opt (env w) (initial_mean sim) sigma_val")
  show ?thesis
  proof (cases c)
    case (Inl e)
    with assms c init_raised [of e e1] show ?thesis
      by (simp add: run_cma_es_def)
  next
    case (Inr optimizer)
    with assms c looped [of optimizer e1] show ?thesis
      by (simp add: run_cma_es_def)
  qed
qed

lemma collect_frame:
  "collect sim opt mode g slots optimizer sols w = (r, w') \<Longrightarrow>
     output_csv w' = output_csv w \<and> stdout w' = stdout w"
proof (induction slots arbitrary: sols w)
  case Nil
  then show ?case by simp
next
  case (Cons i slots)
  from Cons.prems show ?case
  proof (cases rule: collect_Cons_cases)
    case (evaluated x e1 f e2)
    from Cons.IH [OF evaluated(3)] show ?thesis by simp
  qed simp_all
qed


subsection \<open>The collaborators that keep a record\<close>

lemma recorded_sim_simps [simp]:
  "NUM_ACTUATORS (recorded_sim sim) = NUM_ACTUATORS sim"
  "NUM_ITERS (recorded_sim sim) = NUM_ITERS sim"
  "AVG_FREQ (recorded_sim sim) = AVG_FREQ sim"
  "AVG_AMP (recorded_sim sim) = AVG_AMP sim"
  "AVG_PHASE_OFFSET (recorded_sim sim) = AVG_PHASE_OFFSET sim"
  "csv_header (recorded_sim sim) = csv_header sim"
  "initial_mean (recorded_sim sim) = initial_mean sim"
  by (simp_all add: recorded_sim_def csv_header_def initial_mean_def)

lemma recorded_sim_run:
  "sim_run (recorded_sim sim) le iters x mode label = (res, le') \<longleftrightarrow>
     (\<exists>e'. sim_run sim (snd le) iters x mode label = (res, e') \<and>
        le' = (fst le @ [Run iters x mode label res], e'))"
  by (auto simp: recorded_sim_def split: prod.splits)

lemma recorded_ask:
  "ask (recorded_opt opt) le optimizer = (res, le') \<longleftrightarrow>
     (\<exists>e'. ask opt (snd le) optimizer = (res, e') \<and> le' = (fst le @ [Ask res], e'))"
  by (auto simp: recorded_opt_def split: prod.splits)

lemma recorded_tell:
  "tell (recorded_opt opt) le optimizer sols = (res, le') \<longleftrightarrow>
     (\<exists>e'. tell opt (snd le) optimizer sols = (res, e') \<and> le' = (fst le @ [Tell sols res], e'))"
  by (auto simp: recorded_opt_def split: prod.splits)

lemma recorded_population_size:
  "population_size (recorded_opt opt) le optimizer = (p, le') \<longleftrightarrow>
     (\<exists>e'. population_size opt (snd le) optimizer = (p, e') \<and>
        le' = (fst le @ [PopulationSize p], e'))"
  by (auto simp: recorded_opt_def split: prod.splits)

lemma recorded_CMA:
  "CMA (recorded_opt opt) le mean sigma = (res, le') \<longleftrightarrow>
     (\<exists>e'. CMA opt (snd le) mean sigma = (res, e') \<and> le' = (fst le @ [Init mean sigma], e'))"
  by (auto simp: CMA_def recorded_opt_def split: prod.splits)

lemma calls_env [simp]: "calls (w\<lparr>env := (cs, e)\<rparr>) = cs"
  by (simp add: calls_def)

lemma calls_other [simp]:
  "calls (w\<lparr>output_csv := rows\<rparr>) = calls w" "calls (w\<lparr>stdout := out\<rparr>) = calls w"
  by (simp_all add: calls_def)

lemma new_calls_append [simp]: "calls w' = calls w @ cs \<Longrightarrow> new_calls w w' = cs"
  by (simp add: new_calls_def)

lemma new_calls_trans:
  "calls w1 = calls w @ cs \<Longrightarrow> calls w' = calls w1 @ ds \<Longrightarrow> new_calls w w' = cs @ new_calls w1 w'"
  by (simp add: new_calls_def)

lemma recorded_collect_Cons_cases:
  assumes "collect (recorded_sim sim) (recorded_opt opt) mode g (i # slots) optimizer sols w
    = (r, w')"
  obtains
    (ask_raised) e e1 where
      "ask opt (snd (env w)) optimizer = (Inl e, e1)" "r = Inl e"
      "w' = w\<lparr>env := (calls w @ [Ask (Inl e)], e1)\<rparr>"
  | (run_raised) x e1 e e2 where
      "ask opt (snd (env w)) optimizer = (Inr x, e1)"
      "sim_run sim e1 (NUM_ITERS sim) x mode (run_label g i) = (Inl e, e2)"
      "r = Inl e"
      "w' = w\<lparr>env := (calls w @
               [Ask (Inr x), Run (NUM_ITERS sim) x mode (run_label g i) (Inl e)], e2)\<rparr>"
  | (evaluated) x e1 f e2 where
      "ask opt (snd (env w)) optimizer = (Inr x, e1)"
      "sim_run sim e1 (NUM_ITERS sim) x mode (run_label g i) = (Inr f, e2)"
      "collect (recorded_sim sim) (recorded_opt opt) mode g slots optimizer (sols @ [(x, f)])
         (w\<lparr>env := (calls w @
               [Ask (Inr x), Run (NUM_ITERS sim) x mode (run_label g i) (Inr f)], e2)\<rparr>)
       = (r, w')"
  using assms
proof (cases rule: collect_Cons_cases)
  case (ask_raised e le1)
  from ask_raised(1) obtain e1 where "ask opt (snd (env w)) optimizer = (Inl e, e1)"
    "le1 = (calls w @ [Ask (Inl e)], e1)"
    unfolding recorded_ask calls_def by blast
  with ask_raised(2,3) that(1) show ?thesis by blast
next
  case (run_raised x le1 e le2)
  from run_raised(1) obtain e1 where a: "ask opt (snd (env w)) optimizer = (Inr x, e1)"
    "le1 = (calls w @ [Ask (Inr x)], e1)"
    unfolding recorded_ask calls_def by blast
  from run_raised(2) a(2) obtain e2 where
    "sim_run sim e1 (NUM_ITERS sim) x mode (run_label g i) = (Inl e, e2)"
    "le2 = (calls w @ [Ask (Inr x), Run (NUM_ITERS sim) x mode (run_label g i) (Inl e)], e2)"
    unfolding recorded_sim_run by auto
  with a(1) run_raised(3,4) that(2) show ?thesis by blast
next
  case (evaluated x le1 f le2)
  from evaluated(1) obtain e1 where a: "ask opt (snd (env w)) optimizer = (Inr x, e1)"
    "le1 = (calls w @ [Ask (Inr x)], e1)"
    unfolding recorded_ask calls_def by blast
  from evaluated(2) a(2) obtain e2 where
    "sim_run sim e1 (NUM_ITERS sim) x mode (run_label g i) = (Inr f, e2)"
    "le2 = (calls w @ [Ask (Inr x), Run (NUM_ITERS sim) x mode (run_label g i) (Inr f)], e2)"
    unfolding recorded_sim_run by auto
  with a(1) evaluated(3) that(3) show ?thesis by blast
qed

lemma recorded_generation_body_cases:
  assumes "generation_body (recorded_sim sim) (recorded_opt opt) mode g optimizer w = (r, w')"
  obtains
    (collect_raised) p e0 e where
      "population_size opt (snd (env w)) optimizer = (p, e0)"
      "collect (recorded_sim sim) (recorded_opt opt) mode g (py_range p) optimizer []
         (w\<lparr>env := (calls w @ [PopulationSize p], e0)\<rparr>) = (Inl e, w')"
      "r = Some e"
  | (tell_raised) p e0 sols w1 e e2 where
      "population_size opt (snd (env w)) optimizer = (p, e0)"
      "collect (recorded_sim sim) (recorded_opt opt) mode g (py_range p) optimizer []
         (w\<lparr>env := (calls w @ [PopulationSize p], e0)\<rparr>) = (Inr sols, w1)"
      "tell opt (snd (env w1)) optimizer sols = (Inl e, e2)"
      "r = Some e" "w' = w1\<lparr>env := (calls w1 @ [Tell sols (Inl e)], e2)\<rparr>"
  | (index_error) p e0 sols w1 e2 where
      "population_size opt (snd (env w)) optimizer = (p, e0)"
      "collect (recorded_sim sim) (recorded_opt opt) mode g (py_range p) optimizer []
         (w\<lparr>env := (calls w @ [PopulationSize p], e0)\<rparr>) = (Inr sols, w1)"
      "tell opt (snd (env w1)) optimizer sols = (Inr [], e2)"
      "r = Some IndexError"
      "w' = w1\<lparr>env := (calls w1 @ [Tell sols (Inr [])], e2),
               stdout := stdout w1 @ [PrintFitnesses []]\<rparr>"
  | (completed) p e0 sols w1 x f rest e2 where
      "population_size opt (snd (env w)) optimizer = (p, e0)"
      "collect (recorded_sim sim) (recorded_opt opt) mode g (py_range p) optimizer []
         (w\<lparr>env := (calls w @ [PopulationSize p], e0)\<rparr>) = (Inr sols, w1)"
      "tell opt (snd (env w1)) optimizer sols = (Inr ((x, f) # rest), e2)"
      "r = None"
      "w' = w1\<lparr>env := (calls w1 @ [Tell sols (Inr ((x, f) # rest))], e2),
               stdout := stdout w1 @ [PrintFitnesses (f # map snd rest), PrintBest g f],
               output_csv := output_csv w1 @ [[CInt g, CFloat f] @ map CFloat x]\<rparr>"
  using assms
proof (cases rule: generation_body_cases)
  case (collect_raised p le0 e)
  from collect_raised(1) obtain e0 where "population_size opt (snd (env w)) optimizer = (p, e0)"
    "le0 = (calls w @ [PopulationSize p], e0)"
    unfolding recorded_population_size calls_def by blast
  with collect_raised(2,3) that(1) show ?thesis by blast
next
  case (tell_raised p le0 sols w1 e le2)
  from tell_raised(1) obtain e0 where p: "population_size opt (snd (env w)) optimizer = (p, e0)"
    "le0 = (calls w @ [PopulationSize p], e0)"
    unfolding recorded_population_size calls_def by blast
  from tell_raised(3) obtain e2 where "tell opt (snd (env w1)) optimizer sols = (Inl e, e2)"
    "le2 = (calls w1 @ [Tell sols (Inl e)], e2)"
    unfolding recorded_tell calls_def by blast
  with p tell_raised(2,4,5) that(2) show ?thesis by blast
next
  case (index_error p le0 sols w1 le2)
  from index_error(1) obtain e0 where p: "population_size opt (snd (env w)) optimizer = (p, e0)"
    "le0 = (calls w @ [PopulationSize p], e0)"
    unfolding recorded_population_size calls_def by blast
  from index_error(3) obtain e2 where "tell opt (snd (env w1)) optimizer sols = (Inr [], e2)"
    "le2 = (calls w1 @ [Tell sols (Inr [])], e2)"
    unfolding recorded_tell calls_def by blast
  with p index_error(2,4,5) that(3) show ?thesis by blast
next
  case (completed p le0 sols w1 x f rest le2)
  from completed(1) obtain e0 where p: "population_size opt (snd (env w)) optimizer = (p, e0)"
    "le0 = (calls w @ [PopulationSize p], e0)"
    unfolding recorded_population_size calls_def by blast
  from completed(3) obtain e2 where
    "tell opt (snd (env w1)) optimizer sols = (Inr ((x, f) # rest), e2)"
    "le2 = (calls w1 @ [Tell sols (Inr ((x, f) # rest))], e2)"
    unfolding recorded_tell calls_def by blast
  with p completed(2,4,5) that(4) show ?thesis by blast
qed

lemma recorded_run_cma_es_cases:
  assumes "run_cma_es (recorded_sim sim) (recorded_opt opt) mode gens sigma_val w = (r, w')"
  obtains
    (init_raised) e e1 where
      "CMA opt (snd (env w)) (initial_mean sim) sigma_val = (Inl e, e1)" "r = Some e"
      "w' = w\<lparr>output_csv := [csv_header sim],
               env := (calls w @ [Init (initial_mean sim) sigma_val], e1)\<rparr>"
  | (looped) optimizer e1 where
      "CMA opt (snd (env w)) (initial_mean sim) sigma_val = (Inr optimizer, e1)"
      "generations (recorded_sim sim) (recorded_opt opt) mode (py_range gens) optimizer
         (w\<lparr>output_csv := [csv_header sim],
            env := (calls w @ [Init (initial_mean sim) sigma_val], e1)\<rparr>) = (r, w')"
  using assms
proof (cases rule: run_cma_es_cases)
  case (init_raised e le1)
  from init_raised(1) obtain e1 where
    "CMA opt (snd (env w)) (initial_mean sim) sigma_val = (Inl e, e1)"
    "le1 = (calls w @ [Init (initial_mean sim) sigma_val], e1)"
    unfolding recorded_CMA calls_def by auto
  with init_raised(2,3) that(1) show ?thesis by simp
next
  case (looped optimizer le1)
  from looped(1) obtain e1 where
    "CMA opt (snd (env w)) (initial_mean sim) sigma_val = (Inr optimizer, e1)"
    "le1 = (calls w @ [Init (initial_mean sim) sigma_val], e1)"
    unfolding recorded_CMA calls_def by auto
  with looped(2) that(2) show ?thesis by simp
qed

subsection \<open>Keeping the record changes nothing else\<close>

lemma unrecorded_simps [simp]:
  "output_csv (unrecorded w) = output_csv w"
  "stdout (unrecorded w) = stdout w"
  "env (unrecorded w) = snd (env w)"
  "unrecorded (w\<lparr>env := le\<rparr>) = (unrecorded w)\<lparr>env := snd le\<rparr>"
  "unrecorded (w\<lparr>stdout := out\<rparr>) = (unrecorded w)\<lparr>stdout := out\<rparr>"
  "unrecorded (w\<lparr>output_csv := rows\<rparr>) = (unrecorded w)\<lparr>output_csv := rows\<rparr>"
  "unrecorded (recording v) = v"
  by (simp_all add: unrecorded_def recording_def)

lemma recording_simps [simp]:
  "output_csv (recording v) = output_csv v"
  "stdout (recording v) = stdout v"
  "calls (recording v) = []"
  by (simp_all add: recording_def calls_def)

lemma collect_unrecorded:
  "collect (recorded_sim sim) (recorded_opt opt) mode g slots optimizer sols w = (r, w') \<Longrightarrow>
     collect sim opt mode g slots optimizer sols (unrecorded w) = (r, unrecorded w')"
proof (induction slots arbitrary: sols w)
  case Nil
  then show ?case by auto
next
  case (Cons i slots)
  from Cons.prems show ?case
  proof (cases rule: recorded_collect_Cons_cases)
    case (ask_raised e e1)
    then show ?thesis by simp
  next
    case (run_raised x e1 e e2)
    then show ?thesis by simp
  next
    case (evaluated x e1 f e2)
    from Cons.IH [OF evaluated(3)] evaluated(1,2) show ?thesis by simp
  qed
qed

lemma generation_body_unrecorded:
  assumes "generation_body (recorded_sim sim) (recorded_opt opt) mode g optimizer w = (r, w')"
  shows "generation_body sim opt mode g optimizer (unrecorded w) = (r, unrecorded w')"
  using assms
proof (cases rule: recorded_generation_body_cases)
  case (collect_raised p e0 e)
  from collect_unrecorded [OF collect_raised(2)] collect_raised(1,3) show ?thesis
    by (simp add: generation_body_def)
next
  case (tell_raised p e0 sols w1 e e2)
  from collect_unrecorded [OF tell_raised(2)] tell_raised(1,3,4,5) show ?thesis
    by (simp add: generation_body_def)
next
  case (index_error p e0 sols w1 e2)
  from collect_unrecorded [OF index_error(2)] index_error(1,3,4,5) show ?thesis
    by (simp add: generation_body_def)
next
  case (completed p e0 sols w1 x f rest e2)
  from collect_unrecorded [OF completed(2)] completed(1,3,4,5) show ?thesis
    by (simp add: generation_body_def)
qed

lemma generations_unrecorded:
  "generations (recorded_sim sim) (recorded_opt opt) mode gs optimizer w = (r, w') \<Longrightarrow>
     generations sim opt mode gs optimizer (unrecorded w) = (r, unrecorded w')"
proof (induction gs arbitrary: w)
  case Nil
  then show ?case by auto
next
  case (Cons g gs)
  obtain b w1 where b:
    "generation_body (recorded_sim sim) (recorded_opt opt) mode g optimizer w = (b, w1)"
    by (cases "generation_body (recorded_sim sim) (recorded_opt opt) mode g optimizer w")
  note plain = generation_body_unrecorded [OF b]
  show ?case
  proof (cases b)
    case None
    with Cons.prems b have
      "generations (recorded_sim sim) (recorded_opt opt) mode gs optimizer w1 = (r, w')"
      by simp
    from Cons.IH [OF this] plain None show ?thesis by simp
  next
    case (Some e)
    with Cons.prems b plain show ?thesis by auto
  qed
qed

lemma run_unrecorded:
  assumes "run_cma_es (recorded_sim sim) (recorded_opt opt) mode gens sigma_val w = (r, w')"
  shows "run_cma_es sim opt mode gens sigma_val (unrecorded w) = (r, unrecorded w')"
  using assms
proof (cases rule: recorded_run_cma_es_cases)
  case (init_raised e e1)
  then show ?thesis by (simp add: run_cma_es_def)
next
  case (looped optimizer e1)
  from generations_unrecorded [OF looped(2)] looped(1) show ?thesis
    by (simp add: run_cma_es_def)
qed

subsection \<open>The calls, the rows and the printed lines of a run\<close>

lemma population_calls_Nil [simp]:
  "population_calls sim mode g [] sols = []" "population_calls sim mode g slots [] = []"
  by (simp_all add: population_calls_def)

lemma population_calls_Cons [simp]:
  "population_calls sim mode g (i # slots) ((x, f) # sols) =
     Ask (Inr x) # Run (NUM_ITERS sim) x mode (run_label g i) (Inr f)
       # population_calls sim mode g slots sols"
  by (simp add: population_calls_def slot_calls_def)

lemma length_py_range [simp]: "length (py_range n) = nat n"
  by (simp add: py_range_def)

lemma collect_calls:
  "collect (recorded_sim sim) (recorded_opt opt) mode g slots optimizer sols w = (r, w') \<Longrightarrow>
     \<exists>cs. calls w' = calls w @ cs"
proof (induction slots arbitrary: sols w)
  case Nil
  then show ?case by simp
next
  case (Cons i slots)
  from Cons.prems show ?case
  proof (cases rule: recorded_collect_Cons_cases)
    case (evaluated x e1 f e2)
    from Cons.IH [OF evaluated(3)] show ?thesis by auto
  qed auto
qed

lemma collect_returned:
  "collect (recorded_sim sim) (recorded_opt opt) mode g slots optimizer sols w = (Inr sols', w')
     \<Longrightarrow> \<exists>new. sols' = sols @ new \<and> length new = length slots \<and>
       calls w' = calls w @ population_calls sim mode g slots new"
proof (induction slots arbitrary: sols w)
  case Nil
  then show ?case by simp
next
  case (Cons i slots)
  from Cons.prems show ?case
  proof (cases rule: recorded_collect_Cons_cases)
    case (evaluated x e1 f e2)
    from Cons.IH [OF evaluated(3)] obtain new where
      new: "sols' = (sols @ [(x, f)]) @ new" "length new = length slots"
        "calls w' = (calls w @ [Ask (Inr x), Run (NUM_ITERS sim) x mode (run_label g i) (Inr f)])
           @ population_calls sim mode g slots new"
      by auto
    then have "sols' = sols @ ((x, f) # new) \<and> length ((x, f) # new) = length (i # slots) \<and>
        calls w' = calls w @ population_calls sim mode g (i # slots) ((x, f) # new)"
      by simp
    then show ?thesis by blast
  qed auto
qed

lemma generation_body_completed:
  assumes "generation_body (recorded_sim sim) (recorded_opt opt) mode g optimizer w = (None, w')"
  shows "\<exists>t. ran_to_end opt t \<and>
     calls w' = calls w @ generation_calls sim mode g t \<and>
     output_csv w' = output_csv w @ [generation_row g t] \<and>
     stdout w' = stdout w @ generation_prints g t"
  using assms
proof (cases rule: recorded_generation_body_cases)
  case (completed p e0 sols w1 x f rest e2)
  let ?t = "\<lparr>size_read = p, collected = sols, as_left = (x, f) # rest\<rparr>"
  from collect_returned [OF completed(2)] have
    len: "length sols = nat p" and
    cs: "calls w1 = (calls w @ [PopulationSize p]) @ population_calls sim mode g (py_range p) sols"
    by auto
  from collect_frame [OF completed(2)] have
    fr: "output_csv w1 = output_csv w" "stdout w1 = stdout w"
    by simp_all
  from completed(3) have "fst (tell opt (snd (env w1)) optimizer sols) = Inr ((x, f) # rest)"
    by simp
  with len have "ran_to_end opt ?t"
    unfolding ran_to_end_def by auto
  moreover have "calls w' = calls w @ generation_calls sim mode g ?t"
    using completed(5) cs by (simp add: generation_calls_def)
  moreover have "output_csv w' = output_csv w @ [generation_row g ?t]"
    using completed(5) fr by (simp add: generation_row_def)
  moreover have "stdout w' = stdout w @ generation_prints g ?t"
    using completed(5) fr by (simp add: generation_prints_def)
  ultimately show ?thesis by blast
qed simp_all

lemma generation_body_raised:
  assumes "generation_body (recorded_sim sim) (recorded_opt opt) mode g optimizer w
    = (Some e, w')"
  shows "output_csv w' = output_csv w \<and> (\<exists>cs. calls w' = calls w @ cs) \<and>
     (\<exists>ps. stdout w' = stdout w @ ps)"
  using assms
proof (cases rule: recorded_generation_body_cases)
  case (collect_raised p e0 e')
  from collect_frame [OF collect_raised(2)] collect_calls [OF collect_raised(2)]
  show ?thesis by auto
next
  case (tell_raised p e0 sols w1 e' e2)
  from collect_frame [OF tell_raised(2)] collect_calls [OF tell_raised(2)] tell_raised(5)
  show ?thesis by auto
next
  case (index_error p e0 sols w1 e2)
  from collect_frame [OF index_error(2)] collect_calls [OF index_error(2)] index_error(5)
  show ?thesis by auto
next
  case (completed p e0 sols w1 x f rest e2)
  then show ?thesis by simp
qed

lemma generations_structure:
  "generations (recorded_sim sim) (recorded_opt opt) mode gs optimizer w = (r, w') \<Longrightarrow>
     \<exists>info cs ps.
       length info \<le> length gs \<and> (\<forall>t \<in> set info. ran_to_end opt t) \<and>
       (r = None \<longrightarrow> length info = length gs \<and> cs = [] \<and> ps = []) \<and>
       calls w' = calls w @ concat (map2 (generation_calls sim mode) gs info) @ cs \<and>
       output_csv w' = output_csv w @ map2 generation_row gs info \<and>
       stdout w' = stdout w @ concat (map2 generation_prints gs info) @ ps"
proof (induction gs arbitrary: w)
  case Nil
  then have "r = None" "w' = w" by simp_all
  then have "length ([]::told list) \<le> length ([]::int list) \<and>
       (\<forall>t \<in> set ([]::told list). ran_to_end opt t) \<and>
       (r = None \<longrightarrow> length ([]::told list) = length ([]::int list) \<and>
          ([]::event list) = [] \<and> ([]::printed list) = []) \<and>
       calls w' = calls w @ concat (map2 (generation_calls sim mode) [] []) @ [] \<and>
       output_csv w' = output_csv w @ map2 generation_row [] [] \<and>
       stdout w' = stdout w @ concat (map2 generation_prints [] []) @ []"
    by simp
  then show ?case by blast
next
  case (Cons g gs)
  obtain b w1 where b:
    "generation_body (recorded_sim sim) (recorded_opt opt) mode g optimizer w = (b, w1)"
    by (cases "generation_body (recorded_sim sim) (recorded_opt opt) mode g optimizer w")
  show ?case
  proof (cases b)
    case (Some e)
    with Cons.prems b have r: "r = Some e" "w' = w1" by simp_all
    from generation_body_raised [OF b [unfolded Some]] r obtain cs ps where
      "output_csv w' = output_csv w" "calls w' = calls w @ cs" "stdout w' = stdout w @ ps"
      by auto
    with r have "length ([]::told list) \<le> length (g # gs) \<and>
       (\<forall>t \<in> set ([]::told list). ran_to_end opt t) \<and>
       (r = None \<longrightarrow> length ([]::told list) = length (g # gs) \<and> cs = [] \<and> ps = []) \<and>
       calls w' = calls w @ concat (map2 (generation_calls sim mode) (g # gs) []) @ cs \<and>
       output_csv w' = output_csv w @ map2 generation_row (g # gs) [] \<and>
       stdout w' = stdout w @ concat (map2 generation_prints (g # gs) []) @ ps"
      by simp
    then show ?thesis by blast
  next
    case None
    with Cons.prems b have
      "generations (recorded_sim sim) (recorded_opt opt) mode gs optimizer w1 = (r, w')"
      by simp
    from Cons.IH [OF this] obtain info cs ps where ih:
      "length info \<le> length gs" "\<forall>t \<in> set info. ran_to_end opt t"
      "r = None \<longrightarrow> length info = length gs \<and> cs = [] \<and> ps = []"
      "calls w' = calls w1 @ concat (map2 (generation_calls sim mode) gs info) @ cs"
      "output_csv w' = output_csv w1 @ map2 generation_row gs info"
      "stdout w' = stdout w1 @ concat (map2 generation_prints gs info) @ ps"
      by blast
    from generation_body_completed [OF b [unfolded None]] obtain t where t:
      "ran_to_end opt t" "calls w1 = calls w @ generation_calls sim mode g t"
      "output_csv w1 = output_csv w @ [generation_row g t]"
      "stdout w1 = stdout w @ generation_prints g t"
      by blast
    from ih t have "length (t # info) \<le> length (g # gs) \<and>
       (\<forall>t \<in> set (t # info). ran_to_end opt t) \<and>
       (r = None \<longrightarrow> length (t # info) = length (g # gs) \<and> cs = [] \<and> ps = []) \<and>
       calls w' = calls w @ concat (map2 (generation_calls sim mode) (g # gs) (t # info)) @ cs \<and>
       output_csv w' = output_csv w @ map2 generation_row (g # gs) (t # info) \<and>
       stdout w' = stdout w @ concat (map2 generation_prints (g # gs) (t # info)) @ ps"
      by auto
    then show ?thesis by blast
  qed
qed

lemma run_structure:
  assumes "run_cma_es (recorded_sim sim) (recorded_opt opt) mode gens sigma_val w = (r, w')"
  shows "\<exists>info cs ps.
       length info \<le> nat gens \<and> (\<forall>t \<in> set info. ran_to_end opt t) \<and>
       (r = None \<longrightarrow> length info = nat gens \<and> cs = [] \<and> ps = []) \<and>
       calls w' = calls w @ Init (initial_mean sim) sigma_val
         # concat (map2 (generation_calls sim mode) (py_range gens) info) @ cs \<and>
       output_csv w' = csv_header sim # map2 generation_row (py_range gens) info \<and>
       stdout w' = stdout w @ concat (map2 generation_prints (py_range gens) info) @ ps"
  using assms
proof (cases rule: recorded_run_cma_es_cases)
  case (init_raised e e1)
  then have "length ([]::told list) \<le> nat gens \<and>
       (\<forall>t \<in> set ([]::told list). ran_to_end opt t) \<and>
       (r = None \<longrightarrow> length ([]::told list) = nat gens \<and>
          ([]::event list) = [] \<and> ([]::printed list) = []) \<and>
       calls w' = calls w @ Init (initial_mean sim) sigma_val
         # concat (map2 (generation_calls sim mode) (py_range gens) []) @ [] \<and>
       output_csv w' = csv_header sim # map2 generation_row (py_range gens) [] \<and>
       stdout w' = stdout w @ concat (map2 generation_prints (py_range gens) []) @ []"
    by simp
  then show ?thesis by blast
next
  case (looped optimizer e1)
  from generations_structure [OF looped(2)] show ?thesis by simp
qed

subsection \<open>The small instances, run\<close>

lemma py_range_2: "py_range 2 = [0, 1]"
  by (simp add: py_range_def upt_rec)

lemma py_range_1: "py_range 1 = [0]"
  by (simp add: py_range_def)

lemma str_0_1: "str 0 = ''0''" "str 1 = ''1''"
  by code_simp+

lemma demo_run:
  "run_cma_es (recorded_sim demo_sim) (recorded_opt demo_opt) ''h'' 2 1 demo_world
     = (None, demo_final)"
  by (simp add: run_cma_es_def recorded_sim_def recorded_opt_def demo_sim_def demo_opt_def
      demo_world_def CMA_def py_range_2 generation_body_def initial_mean_def run_label_def
      str_0_1 demo_final_def csv_header_def)

lemma descending_run:
  "run_cma_es (recorded_sim descending_sim) (recorded_opt demo_opt) ''h'' 1 1 demo_world
     = (None, descending_final)"
  by (simp add: run_cma_es_def recorded_sim_def recorded_opt_def descending_sim_def demo_opt_def
      demo_world_def CMA_def py_range_2 py_range_1 generation_body_def initial_mean_def
      run_label_def str_0_1 descending_final_def csv_header_def)

lemma demo_CMA:
  "CMA demo_opt (snd (env demo_world)) (initial_mean demo_sim) 1 = (Inr (), 0, 0)"
  by (simp add: CMA_def demo_opt_def demo_world_def)

subsection \<open>A spread that is not positive\<close>

text \<open>
  Claim C4. If \<open>sigma \<le> 0\<close>, the construction of the optimizer fails and the run ends
  there: the header has been written before, so the file holds the header row and
  nothing else, and the only call made is the constructor's. The first equation is the
  run with the record of calls, the second the run against the collaborators as given.
\<close>

theorem sigma_not_positive:
  assumes "sigma_val \<le> 0"
  shows "run_cma_es (recorded_sim sim) (recorded_opt opt) mode gens sigma_val w =
       (Some AssertionError,
        w\<lparr>output_csv := [csv_header sim],
          env := (calls w @ [Init (initial_mean sim) sigma_val],
                  snd (cma_init opt (snd (env w)) (initial_mean sim) sigma_val))\<rparr>) \<and>
     run_cma_es sim opt mode gens sigma_val v =
       (Some AssertionError,
        v\<lparr>output_csv := [csv_header sim],
          env := snd (cma_init opt (env v) (initial_mean sim) sigma_val)\<rparr>)"
  using assms
  by (simp add: run_cma_es_def CMA_def recorded_opt_def calls_def split: prod.splits)

theorem sigma_not_positive_witness:
  "(0::real) \<le> 0 \<and>
   run_cma_es (recorded_sim demo_sim) (recorded_opt demo_opt) ''h'' 3 0 demo_world =
     (Some AssertionError,
      \<lparr>output_csv = [csv_header demo_sim], stdout = [],
       env = ([Init (initial_mean demo_sim) 0], 0, 0)\<rparr>) \<and>
   run_cma_es demo_sim demo_opt ''h'' 3 0 (unrecorded demo_world) =
     (Some AssertionError,
      \<lparr>output_csv = [csv_header demo_sim], stdout = [], env = (0, 0)\<rparr>)"
  using sigma_not_positive [of 0 demo_sim demo_opt "''h''" 3 demo_world "unrecorded demo_world"]
  by (simp add: demo_world_def demo_opt_def calls_def unrecorded_def)

subsection \<open>A negative number of generations\<close>

text \<open>
  Claim C9. For a negative \<open>gens\<close> (and an optimizer that can be built), the loop body
  never runs: the run returns normally, the file holds the header row only, and apart
  from the constructor no call to the optimizer or the simulator is made. The first
  equation is the run with the record of calls, the second the run against the
  collaborators as given.
\<close>

theorem negative_generations:
  assumes "gens < 0"
    and "CMA opt (snd (env w)) (initial_mean sim) sigma_val = (Inr optimizer, e1)"
  shows "run_cma_es (recorded_sim sim) (recorded_opt opt) mode gens sigma_val w =
       (None,
        w\<lparr>output_csv := [csv_header sim],
          env := (calls w @ [Init (initial_mean sim) sigma_val], e1)\<rparr>) \<and>
     run_cma_es sim opt mode gens sigma_val (unrecorded w) =
       (None, (unrecorded w)\<lparr>output_csv := [csv_header sim], env := e1\<rparr>)"
proof -
  from assms(2) have
    "CMA (recorded_opt opt) (env w) (initial_mean sim) sigma_val
       = (Inr optimizer, (calls w @ [Init (initial_mean sim) sigma_val], e1))"
    unfolding recorded_CMA calls_def by simp
  with assms show ?thesis
    by (simp add: run_cma_es_def py_range_def)
qed

theorem negative_generations_witness:
  "(-3::int) < 0 \<and>
   CMA demo_opt (snd (env demo_world)) (initial_mean demo_sim) 1 = (Inr (), 0, 0) \<and>
   run_cma_es (recorded_sim demo_sim) (recorded_opt demo_opt) ''h'' (-3) 1 demo_world =
     (None,
      \<lparr>output_csv = [csv_header demo_sim], stdout = [],
       env = ([Init (initial_mean demo_sim) 1], 0, 0)\<rparr>) \<and>
   run_cma_es demo_sim demo_opt ''h'' (-3) 1 (unrecorded demo_world) =
     (None, \<lparr>output_csv = [csv_header demo_sim], stdout = [], env = (0, 0)\<rparr>)"
  using negative_generations [of "-3" demo_opt demo_world demo_sim 1 "()" "(0, 0)" "''h''",
      OF _ demo_CMA] demo_CMA
  by (simp add: demo_world_def calls_def unrecorded_def)

subsection \<open>When nothing raises\<close>







lemma demo_tell_reorders: "tell_reorders demo_opt"
  by (simp add: tell_reorders_def demo_opt_def)


subsection \<open>The number of rows\<close>



subsection \<open>Projections of the record of calls\<close>

lemma drawn_append [simp]: "drawn (cs @ ds) = drawn cs @ drawn ds"
  by (induction cs rule: drawn.induct) simp_all

lemma set_drawn_concat: "set (drawn (concat css)) = (\<Union>cs\<in>set css. set (drawn cs))"
  by (induction css) simp_all

lemma drawn_population_calls:
  "length slots = length sols \<Longrightarrow> drawn (population_calls sim mode g slots sols) = map fst sols"
proof (induction slots arbitrary: sols)
  case Nil
  then show ?case by simp
next
  case (Cons i slots)
  then obtain x f rest where "sols = (x, f) # rest" "length slots = length rest"
    by (cases sols) auto
  with Cons.IH [of rest] show ?case by simp
qed

lemma drawn_generation_calls:
  "length (collected t) = nat (size_read t) \<Longrightarrow>
     drawn (generation_calls sim mode g t) = map fst (collected t)"
  by (simp add: generation_calls_def drawn_population_calls)

lemma nth_py_range: "k < nat n \<Longrightarrow> py_range n ! k = int k"
  by (simp add: py_range_def)

subsection \<open>The number of columns\<close>

lemma length_foldl_header:
  "length (foldl (\<lambda>h i. h @ header_columns i) h0 slots) = length h0 + 3 * length slots"
  by (induction slots arbitrary: h0) (simp_all add: header_columns_def)

lemma length_csv_header: "length (csv_header sim) = 2 + 3 * NUM_ACTUATORS sim"
  by (simp add: csv_header_def length_foldl_header)

text \<open>
  Claim C3. If every candidate drawn from the optimizer during the run has length
  \<open>3 * NUM_ACTUATORS\<close>, every row of the file, the header and the data rows, has
  \<open>2 + 3 * NUM_ACTUATORS\<close> columns; \<open>tell\<close> may reorder the list it is given, as the
  library's does. The file is the same when no record of the calls is kept.
\<close>

theorem log_column_count:
  assumes "run_cma_es (recorded_sim sim) (recorded_opt opt) mode gens sigma_val w = (r, w')"
    and "\<forall>x \<in> set (drawn (new_calls w w')). length x = 3 * NUM_ACTUATORS sim"
    and "tell_reorders opt"
  shows "(\<forall>row \<in> set (output_csv w'). length row = 2 + 3 * NUM_ACTUATORS sim) \<and>
     output_csv (snd (run_cma_es sim opt mode gens sigma_val (unrecorded w))) = output_csv w'"
proof
  from run_structure [OF assms(1)] obtain info cs where s:
    "\<forall>t \<in> set info. ran_to_end opt t"
    "calls w' = calls w @ Init (initial_mean sim) sigma_val
       # concat (map2 (generation_calls sim mode) (py_range gens) info) @ cs"
    "output_csv w' = csv_header sim # map2 generation_row (py_range gens) info"
    by blast
  from s(2) have nc: "new_calls w w' = Init (initial_mean sim) sigma_val
       # concat (map2 (generation_calls sim mode) (py_range gens) info) @ cs"
    by simp
  have "length (generation_row g t) = 2 + 3 * NUM_ACTUATORS sim"
    if m: "(g, t) \<in> set (zip (py_range gens) info)" for g t
  proof -
    from m s(1) have e: "ran_to_end opt t" by (metis set_zip_rightD)
    then obtain x f rest where left: "as_left t = (x, f) # rest"
      unfolding ran_to_end_def by (cases "as_left t") auto
    from e assms(3) have "mset (as_left t) = mset (collected t)"
      unfolding ran_to_end_def tell_reorders_def by blast
    then have "set (as_left t) = set (collected t)" by (rule mset_eq_setD)
    with left have "(x, f) \<in> set (collected t)" by auto
    then have "x \<in> set (map fst (collected t))" by force
    with e have "x \<in> set (drawn (generation_calls sim mode g t))"
      unfolding ran_to_end_def by (simp add: drawn_generation_calls)
    moreover from m have "generation_calls sim mode g t
        \<in> set (map2 (generation_calls sim mode) (py_range gens) info)"
      by force
    ultimately have "x \<in> set (drawn (new_calls w w'))"
      unfolding nc by (simp only: drawn.simps drawn_append set_append set_drawn_concat) blast
    with assms(2) have "length x = 3 * NUM_ACTUATORS sim" by blast
    then show ?thesis by (simp add: left generation_row_def)
  qed
  then show "\<forall>row \<in> set (output_csv w'). length row = 2 + 3 * NUM_ACTUATORS sim"
    by (auto simp: s(3) length_csv_header)
next
  from run_unrecorded [OF assms(1)]
  show "output_csv (snd (run_cma_es sim opt mode gens sigma_val (unrecorded w))) = output_csv w'"
    by simp
qed

theorem log_column_count_witness:
  "run_cma_es (recorded_sim demo_sim) (recorded_opt demo_opt) ''h'' 2 1 demo_world
     = (None, demo_final) \<and>
   map length (drawn (new_calls demo_world demo_final)) = [3, 3, 3, 3] \<and>
   tell_reorders demo_opt \<and>
   NUM_ACTUATORS demo_sim = 1 \<and>
   map length (output_csv demo_final) = [5, 5, 5] \<and>
   output_csv (snd (run_cma_es demo_sim demo_opt ''h'' 2 1 (unrecorded demo_world)))
     = output_csv demo_final"
proof -
  have d: "drawn (new_calls demo_world demo_final)
      = [[0, 0, 0], [1, 0, 0], [2, 0, 0], [3, 0, 0]]"
    by (simp add: new_calls_def calls_def demo_world_def demo_final_def)
  have n: "NUM_ACTUATORS demo_sim = 1"
    by (simp add: demo_sim_def)
  have t: "(\<forall>row \<in> set (output_csv demo_final). length row = 2 + 3 * NUM_ACTUATORS demo_sim) \<and>
     output_csv (snd (run_cma_es demo_sim demo_opt ''h'' 2 1 (unrecorded demo_world)))
       = output_csv demo_final"
    by (rule log_column_count [OF demo_run _ demo_tell_reorders]) (simp add: d n)
  then have "map length (output_csv demo_final) = [5, 5, 5]"
    by (simp add: demo_final_def n)
  with demo_run d n t demo_tell_reorders show ?thesis by simp
qed

subsection \<open>Which pair is logged\<close>

text \<open>
  Claim C1, as amended. Whatever the outcome of the run, let \<open>info\<close> be the generations
  that ran to their end, as the record of calls shows them (generation \<open>k\<close> read the
  population size, drew and evaluated the pairs \<open>collected (info ! k)\<close> in that order
  and handed them to \<open>tell\<close>, which left the list as \<open>as_left (info ! k)\<close>). Then the
  file holds one data row per such generation, and the row of generation \<open>k\<close> is \<open>k\<close>,
  the fitness of the first pair of the list as \<open>tell\<close> left it, and the components of
  that pair's candidate; the best fitness printed is that same fitness, and the
  fitnesses printed are those of the list as left, in its order. The driver itself
  neither sorts the list nor searches it. The file, the output and the outcome are the
  same when no record of the calls is kept.
\<close>

theorem first_pair_after_tell_is_logged:
  assumes "run_cma_es (recorded_sim sim) (recorded_opt opt) mode gens sigma_val w = (r, w')"
  shows "\<exists>info cs ps.
     calls w' = calls w @ Init (initial_mean sim) sigma_val
       # concat (map2 (generation_calls sim mode) (py_range gens) info) @ cs \<and>
     stdout w' = stdout w @ concat (map2 generation_prints (py_range gens) info) @ ps \<and>
     length (output_csv w') = Suc (length info) \<and>
     (\<forall>k<length info. \<exists>x f rest.
        as_left (info ! k) = (x, f) # rest \<and>
        output_csv w' ! Suc k = CInt (int k) # CFloat f # map CFloat x \<and>
        generation_prints (int k) (info ! k)
          = [PrintFitnesses (f # map snd rest), PrintBest (int k) f]) \<and>
     (r = None \<longrightarrow> length info = nat gens) \<and>
     run_cma_es sim opt mode gens sigma_val (unrecorded w) = (r, unrecorded w')"
proof -
  from run_structure [OF assms] obtain info cs ps where s:
    "length info \<le> nat gens" "\<forall>t \<in> set info. ran_to_end opt t"
    "r = None \<longrightarrow> length info = nat gens \<and> cs = [] \<and> ps = []"
    "calls w' = calls w @ Init (initial_mean sim) sigma_val
       # concat (map2 (generation_calls sim mode) (py_range gens) info) @ cs"
    "output_csv w' = csv_header sim # map2 generation_row (py_range gens) info"
    "stdout w' = stdout w @ concat (map2 generation_prints (py_range gens) info) @ ps"
    by blast
  have rows: "\<exists>x f rest.
        as_left (info ! k) = (x, f) # rest \<and>
        output_csv w' ! Suc k = CInt (int k) # CFloat f # map CFloat x \<and>
        generation_prints (int k) (info ! k)
          = [PrintFitnesses (f # map snd rest), PrintBest (int k) f]" if k: "k < length info" for k
  proof -
    from k s(2) have "as_left (info ! k) \<noteq> []"
      unfolding ran_to_end_def by (metis nth_mem)
    then obtain x f rest where i: "as_left (info ! k) = (x, f) # rest"
      by (cases "as_left (info ! k)") auto
    from k s(1) have "output_csv w' ! Suc k = generation_row (int k) (info ! k)"
      by (simp add: s(5) nth_py_range)
    with i show ?thesis
      by (simp add: generation_row_def generation_prints_def)
  qed
  from s(1) have "length (output_csv w') = Suc (length info)"
    by (simp add: s(5))
  with s(3,4,6) rows run_unrecorded [OF assms] show ?thesis by blast
qed

theorem first_pair_after_tell_is_logged_witness:
  "run_cma_es (recorded_sim descending_sim) (recorded_opt demo_opt) ''h'' 1 1 demo_world
     = (None, descending_final) \<and>
   stdout descending_final = [PrintFitnesses [4, 5], PrintBest 0 4] \<and>
   output_csv descending_final ! 1 = [CInt 0, CFloat 4, CFloat 1, CFloat 0, CFloat 0] \<and>
   (\<exists>info cs ps.
     calls descending_final = calls demo_world @ Init (initial_mean descending_sim) 1
       # concat (map2 (generation_calls descending_sim ''h'') (py_range 1) info) @ cs \<and>
     stdout descending_final
       = stdout demo_world @ concat (map2 generation_prints (py_range 1) info) @ ps \<and>
     length (output_csv descending_final) = Suc (length info) \<and>
     (\<forall>k<length info. \<exists>x f rest.
        as_left (info ! k) = (x, f) # rest \<and>
        output_csv descending_final ! Suc k = CInt (int k) # CFloat f # map CFloat x \<and>
        generation_prints (int k) (info ! k)
          = [PrintFitnesses (f # map snd rest), PrintBest (int k) f]) \<and>
     (None = (None::error option) \<longrightarrow> length info = nat 1) \<and>
     run_cma_es descending_sim demo_opt ''h'' 1 1 (unrecorded demo_world)
       = (None, unrecorded descending_final))"
proof -
  have "stdout descending_final = [PrintFitnesses [4, 5], PrintBest 0 4]"
    "output_csv descending_final ! 1 = [CInt 0, CFloat 4, CFloat 1, CFloat 0, CFloat 0]"
    by (simp_all add: descending_final_def)
  with descending_run first_pair_after_tell_is_logged [OF descending_run] show ?thesis
    by blast
qed

text \<open>
  The claim that the row and the printed best come from the first pair in collection
  order fails when \<open>tell\<close> reorders the list. With the second simulator the pairs are
  collected with fitness 5, then 4; \<open>tell\<close> sorts the list; the row and the printed best
  are those of the pair with fitness 4, collected second.
\<close>

theorem first_collected_pair_counterexample:
  "run_cma_es (recorded_sim descending_sim) (recorded_opt demo_opt) ''h'' 1 1 demo_world
     = (None, descending_final) \<and>
   new_calls demo_world descending_final =
     [Init [1, 2, 3] 1,
      PopulationSize 2,
      Ask (Inr [0, 0, 0]), Run 5 [0, 0, 0] ''h'' ''0_0'' (Inr 5),
      Ask (Inr [1, 0, 0]), Run 5 [1, 0, 0] ''h'' ''0_1'' (Inr 4),
      Tell [([0, 0, 0], 5), ([1, 0, 0], 4)] (Inr [([1, 0, 0], 4), ([0, 0, 0], 5)])] \<and>
   output_csv descending_final ! 1 = [CInt 0, CFloat 4, CFloat 1, CFloat 0, CFloat 0] \<and>
   output_csv descending_final ! 1 \<noteq> [CInt 0, CFloat 5, CFloat 0, CFloat 0, CFloat 0] \<and>
   stdout descending_final = [PrintFitnesses [4, 5], PrintBest 0 4] \<and>
   output_csv (snd (run_cma_es descending_sim demo_opt ''h'' 1 1 (unrecorded demo_world))) ! 1
     = [CInt 0, CFloat 4, CFloat 1, CFloat 0, CFloat 0]"
proof -
  have "new_calls demo_world descending_final =
     [Init [1, 2, 3] 1,
      PopulationSize 2,
      Ask (Inr [0, 0, 0]), Run 5 [0, 0, 0] ''h'' ''0_0'' (Inr 5),
      Ask (Inr [1, 0, 0]), Run 5 [1, 0, 0] ''h'' ''0_1'' (Inr 4),
      Tell [([0, 0, 0], 5), ([1, 0, 0], 4)] (Inr [([1, 0, 0], 4), ([0, 0, 0], 5)])]"
    by (simp add: new_calls_def calls_def demo_world_def descending_final_def)
  moreover have
    "output_csv descending_final ! 1 = [CInt 0, CFloat 4, CFloat 1, CFloat 0, CFloat 0]"
    "stdout descending_final = [PrintFitnesses [4, 5], PrintBest 0 4]"
    by (simp_all add: descending_final_def)
  moreover from run_unrecorded [OF descending_run] have
    "output_csv (snd (run_cma_es descending_sim demo_opt ''h'' 1 1 (unrecorded demo_world)))
       = output_csv descending_final"
    by simp
  ultimately show ?thesis using descending_run by simp
qed

subsection \<open>Ask, evaluate, tell\<close>

text \<open>
  Claim C5. After the constructor, the calls that the collaborators receive in a run
  are, generation after generation: the population size \<open>p\<close> is read, \<open>p\<close> times a
  candidate is drawn and evaluated, and one \<open>tell\<close> is given the \<open>p\<close> pairs, each drawn
  candidate once, with its fitness, in the order drawn; only then does the next
  generation start. This holds for every generation that ran to its end (there are as
  many as data rows), and for all \<open>gens\<close> of them when the run returns normally; a
  generation cut short by an exception leaves the calls \<open>cs\<close>. The outcome, the file
  and the output are the same when no record of the calls is kept.
\<close>

theorem ask_tell_batches:
  assumes "run_cma_es (recorded_sim sim) (recorded_opt opt) mode gens sigma_val w = (r, w')"
  shows "\<exists>info cs.
     calls w' = calls w @ Init (initial_mean sim) sigma_val
       # concat (map2 (generation_calls sim mode) (py_range gens) info) @ cs \<and>
     (\<forall>t \<in> set info. ran_to_end opt t) \<and>
     length (output_csv w') = Suc (length info) \<and>
     (r = None \<longrightarrow> length info = nat gens \<and> cs = []) \<and>
     run_cma_es sim opt mode gens sigma_val (unrecorded w) = (r, unrecorded w')"
proof -
  from run_structure [OF assms] obtain info cs ps where s:
    "length info \<le> nat gens" "\<forall>t \<in> set info. ran_to_end opt t"
    "r = None \<longrightarrow> length info = nat gens \<and> cs = [] \<and> ps = []"
    "calls w' = calls w @ Init (initial_mean sim) sigma_val
       # concat (map2 (generation_calls sim mode) (py_range gens) info) @ cs"
    "output_csv w' = csv_header sim # map2 generation_row (py_range gens) info"
    by blast
  from s(1) have "length (output_csv w') = Suc (length info)"
    by (simp add: s(5))
  with s(2,3,4) run_unrecorded [OF assms] show ?thesis by blast
qed

theorem ask_tell_batches_witness:
  "run_cma_es (recorded_sim demo_sim) (recorded_opt demo_opt) ''h'' 2 1 demo_world
     = (None, demo_final) \<and>
   (\<exists>info cs.
     calls demo_final = calls demo_world @ Init (initial_mean demo_sim) 1
       # concat (map2 (generation_calls demo_sim ''h'') (py_range 2) info) @ cs \<and>
     (\<forall>t \<in> set info. ran_to_end demo_opt t) \<and>
     length (output_csv demo_final) = Suc (length info) \<and>
     (None = (None::error option) \<longrightarrow> length info = nat 2 \<and> cs = []) \<and>
     run_cma_es demo_sim demo_opt ''h'' 2 1 (unrecorded demo_world)
       = (None, unrecorded demo_final))"
  using demo_run ask_tell_batches [OF demo_run] by blast

subsection \<open>The initial mean\<close>

lemma inits_append [simp]: "inits (cs @ ds) = inits cs @ inits ds"
  by (induction cs rule: inits.induct) simp_all

lemma collect_inits:
  "collect (recorded_sim sim) (recorded_opt opt) mode g slots optimizer sols w = (r, w') \<Longrightarrow>
     inits (calls w') = inits (calls w)"
proof (induction slots arbitrary: sols w)
  case Nil
  then show ?case by simp
next
  case (Cons i slots)
  from Cons.prems show ?case
  proof (cases rule: recorded_collect_Cons_cases)
    case (evaluated x e1 f e2)
    from Cons.IH [OF evaluated(3)] show ?thesis by simp
  qed simp_all
qed

lemma generation_body_inits:
  assumes "generation_body (recorded_sim sim) (recorded_opt opt) mode g optimizer w = (r, w')"
  shows "inits (calls w') = inits (calls w)"
  using assms
proof (cases rule: recorded_generation_body_cases)
  case (collect_raised p e0 e)
  from collect_inits [OF collect_raised(2)] show ?thesis by simp
next
  case (tell_raised p e0 sols w1 e e2)
  from collect_inits [OF tell_raised(2)] tell_raised(5) show ?thesis by simp
next
  case (index_error p e0 sols w1 e2)
  from collect_inits [OF index_error(2)] index_error(5) show ?thesis by simp
next
  case (completed p e0 sols w1 x f rest e2)
  from collect_inits [OF completed(2)] completed(5) show ?thesis by simp
qed

lemma generations_inits:
  "generations (recorded_sim sim) (recorded_opt opt) mode gs optimizer w = (r, w') \<Longrightarrow>
     inits (calls w') = inits (calls w)"
proof (induction gs arbitrary: w)
  case Nil
  then show ?case by simp
next
  case (Cons g gs)
  obtain b w1 where b:
    "generation_body (recorded_sim sim) (recorded_opt opt) mode g optimizer w = (b, w1)"
    by (cases "generation_body (recorded_sim sim) (recorded_opt opt) mode g optimizer w")
  note i = generation_body_inits [OF b]
  show ?case
  proof (cases b)
    case None
    with Cons.prems b have
      "generations (recorded_sim sim) (recorded_opt opt) mode gs optimizer w1 = (r, w')"
      by simp
    from Cons.IH [OF this] i show ?thesis by simp
  next
    case (Some e)
    with Cons.prems b i show ?thesis by auto
  qed
qed

lemma nth_concat_replicate_triple:
  "i < 3 * n \<Longrightarrow> concat (replicate n [a, b, c]) ! i = [a, b, c] ! (i mod 3)"
proof (induction n arbitrary: i)
  case 0
  then show ?case by simp
next
  case (Suc n)
  show ?case
  proof (cases "i < 3")
    case True
    then have "i = 0 \<or> i = 1 \<or> i = 2" by arith
    then show ?thesis by auto
  next
    case False
    with Suc.prems have "i - 3 < 3 * n" by simp
    have l: "length [a, b, c] = 3" by simp
    have "concat (replicate (Suc n) [a, b, c]) ! i = ([a, b, c] @ concat (replicate n [a, b, c])) ! i"
      by simp
    also from False have "\<dots> = concat (replicate n [a, b, c]) ! (i - 3)"
      unfolding nth_append l by simp
    also from Suc.IH [OF \<open>i - 3 < 3 * n\<close>] have "\<dots> = [a, b, c] ! ((i - 3) mod 3)" .
    also from False have "(i - 3) mod 3 = i mod 3"
      by (simp add: le_mod_geq)
    finally show ?thesis .
  qed
qed

text \<open>
  Claim C10. The constructor is called once in a run, first of all calls, and the mean
  it is given is, for each actuator in turn, the average frequency, the average
  amplitude and the average phase offset of the simulator module, in that order; its
  length is \<open>3 * NUM_ACTUATORS\<close>.
\<close>

theorem initial_mean_layout:
  assumes "run_cma_es (recorded_sim sim) (recorded_opt opt) mode gens sigma_val w = (r, w')"
  shows "(\<exists>cs. new_calls w w' = Init (initial_mean sim) sigma_val # cs) \<and>
     inits (new_calls w w') = [(initial_mean sim, sigma_val)] \<and>
     length (initial_mean sim) = 3 * NUM_ACTUATORS sim \<and>
     (\<forall>k<NUM_ACTUATORS sim.
        initial_mean sim ! (3 * k) = AVG_FREQ sim \<and>
        initial_mean sim ! (3 * k + 1) = AVG_AMP sim \<and>
        initial_mean sim ! (3 * k + 2) = AVG_PHASE_OFFSET sim) \<and>
     run_cma_es sim opt mode gens sigma_val (unrecorded w) = (r, unrecorded w')"
proof (intro conjI allI impI)
  from run_structure [OF assms] obtain cs where
    cs: "calls w' = calls w @ Init (initial_mean sim) sigma_val # cs"
    by blast
  then show "\<exists>cs. new_calls w w' = Init (initial_mean sim) sigma_val # cs"
    by simp
  from assms have "inits (calls w') = inits (calls w) @ [(initial_mean sim, sigma_val)]"
  proof (cases rule: recorded_run_cma_es_cases)
    case (init_raised e e1)
    then show ?thesis by simp
  next
    case (looped optimizer e1)
    from generations_inits [OF looped(2)] show ?thesis by simp
  qed
  with cs show "inits (new_calls w w') = [(initial_mean sim, sigma_val)]"
    by simp
next
  show "length (initial_mean sim) = 3 * NUM_ACTUATORS sim"
    by (simp add: initial_mean_def length_concat sum_list_replicate)
next
  fix k assume k: "k < NUM_ACTUATORS sim"
  then have "3 * k < 3 * NUM_ACTUATORS sim" "3 * k + 1 < 3 * NUM_ACTUATORS sim"
    "3 * k + 2 < 3 * NUM_ACTUATORS sim" by simp_all
  moreover have "(3 * k) mod 3 = 0" "(3 * k + 1) mod 3 = 1" "(3 * k + 2) mod 3 = 2"
    by presburger+
  ultimately show "initial_mean sim ! (3 * k) = AVG_FREQ sim"
    "initial_mean sim ! (3 * k + 1) = AVG_AMP sim"
    "initial_mean sim ! (3 * k + 2) = AVG_PHASE_OFFSET sim"
    unfolding initial_mean_def by (simp_all only: nth_concat_replicate_triple) simp_all
next
  from run_unrecorded [OF assms]
  show "run_cma_es sim opt mode gens sigma_val (unrecorded w) = (r, unrecorded w')" .
qed

theorem initial_mean_layout_witness:
  "run_cma_es (recorded_sim demo_sim) (recorded_opt demo_opt) ''h'' 2 1 demo_world
     = (None, demo_final) \<and>
   inits (new_calls demo_world demo_final) = [(initial_mean demo_sim, 1)] \<and>
   NUM_ACTUATORS demo_sim = 1 \<and>
   length (initial_mean demo_sim) = 3 \<and>
   initial_mean demo_sim ! 0 = 1 \<and>
   initial_mean demo_sim ! 1 = 2 \<and>
   initial_mean demo_sim ! 2 = 3"
proof -
  have n: "NUM_ACTUATORS demo_sim = 1" "AVG_FREQ demo_sim = 1" "AVG_AMP demo_sim = 2"
    "AVG_PHASE_OFFSET demo_sim = 3"
    by (simp_all add: demo_sim_def)
  note t = initial_mean_layout [OF demo_run]
  from t have "inits (new_calls demo_world demo_final) = [(initial_mean demo_sim, 1)]"
    by blast
  moreover from t n have "length (initial_mean demo_sim) = 3"
    by simp
  moreover from t have "initial_mean demo_sim ! (3 * 0) = AVG_FREQ demo_sim \<and>
      initial_mean demo_sim ! (3 * 0 + 1) = AVG_AMP demo_sim \<and>
      initial_mean demo_sim ! (3 * 0 + 2) = AVG_PHASE_OFFSET demo_sim"
    using n(1) by (metis zero_less_one)
  ultimately show ?thesis using n demo_run by (simp add: numeral_2_eq_2)
qed

subsection \<open>Run labels\<close>

text \<open>
  \<open>str\<close> writes digits and at most a leading minus sign, and different integers get
  different strings; so the text before the underscore of a label determines the
  generation and the text after it the slot.
\<close>

lemma of_char_digit_char: "d < 10 \<Longrightarrow> of_char (digit_char d) = 48 + d"
  by (simp add: digit_char_def)

lemma digit_char_inj: "d < 10 \<Longrightarrow> d' < 10 \<Longrightarrow> digit_char d = digit_char d' \<Longrightarrow> d = d'"
  by (metis of_char_digit_char add_left_cancel)

lemma is_digit_digit_char: "d < 10 \<Longrightarrow> is_digit (digit_char d)"
  by (simp add: is_digit_def of_char_digit_char)

lemma str_nat_nonempty: "str_nat n \<noteq> []" "[] \<noteq> str_nat n"
  by (subst str_nat.simps, simp)+

lemma str_nat_digits: "c \<in> set (str_nat n) \<Longrightarrow> is_digit c"
proof (induction n rule: str_nat.induct)
  case (1 n)
  show ?case
  proof (cases "n < 10")
    case True
    with "1.prems" show ?thesis
      by (simp add: str_nat.simps [of n] is_digit_digit_char)
  next
    case False
    with "1.prems" have "c \<in> set (str_nat (n div 10)) \<or> c = digit_char (n mod 10)"
      by (auto simp: str_nat.simps [of n])
    with False "1.IH" show ?thesis
      by (auto simp: is_digit_digit_char)
  qed
qed

lemma str_nat_inj: "str_nat n = str_nat m \<Longrightarrow> n = m"
proof (induction n arbitrary: m rule: str_nat.induct)
  case (1 n)
  show ?case
  proof (cases "n < 10")
    case n: True
    show ?thesis
    proof (cases "m < 10")
      case True
      with n "1.prems" show ?thesis
        by (simp add: str_nat.simps [of n] str_nat.simps [of m] digit_char_inj)
    next
      case False
      with n "1.prems" show ?thesis
        by (simp add: str_nat.simps [of n] str_nat.simps [of m] str_nat_nonempty)
    qed
  next
    case n: False
    show ?thesis
    proof (cases "m < 10")
      case True
      with n "1.prems" show ?thesis
        by (simp add: str_nat.simps [of n] str_nat.simps [of m] str_nat_nonempty)
    next
      case False
      with n "1.prems" have
        "str_nat (n div 10) = str_nat (m div 10)" "digit_char (n mod 10) = digit_char (m mod 10)"
        by (simp_all add: str_nat.simps [of n] str_nat.simps [of m])
      with "1.IH" [OF n] have "n div 10 = m div 10" "n mod 10 = m mod 10"
        by (simp_all add: digit_char_inj)
      then show ?thesis by (metis div_mult_mod_eq)
    qed
  qed
qed

lemma minus_not_digit: "\<not> is_digit CHR ''-''" and underscore_not_digit: "\<not> is_digit CHR ''_''"
  by (simp_all add: is_digit_def)

lemma str_inj: "str i = str j \<Longrightarrow> i = j"
proof -
  assume e: "str i = str j"
  have neg: "CHR ''-'' # str_nat a \<noteq> str_nat b" for a b
  proof
    assume "CHR ''-'' # str_nat a = str_nat b"
    then have "CHR ''-'' \<in> set (str_nat b)" by (metis list.set_intros(1))
    with str_nat_digits minus_not_digit show False by blast
  qed
  show ?thesis
  proof (cases "i < 0"; cases "j < 0")
    assume "i < 0" "j < 0"
    with e have "str_nat (nat (- i)) = str_nat (nat (- j))" by (simp add: str_def)
    from str_nat_inj [OF this] \<open>i < 0\<close> \<open>j < 0\<close> show ?thesis by simp
  next
    assume "i < 0" "\<not> j < 0"
    with e neg show ?thesis by (simp add: str_def)
  next
    assume "\<not> i < 0" "j < 0"
    with e neg [of "nat (- j)" "nat i"] show ?thesis by (simp add: str_def)
  next
    assume "\<not> i < 0" "\<not> j < 0"
    with e have "str_nat (nat i) = str_nat (nat j)" by (simp add: str_def)
    from str_nat_inj [OF this] \<open>\<not> i < 0\<close> \<open>\<not> j < 0\<close> show ?thesis by simp
  qed
qed

lemma underscore_not_in_str: "CHR ''_'' \<notin> set (str i)"
  using str_nat_digits underscore_not_digit by (auto simp: str_def)

lemma split_at_separator:
  "c \<notin> set a \<Longrightarrow> c \<notin> set a' \<Longrightarrow> a @ c # b = a' @ c # b' \<Longrightarrow> a = a' \<and> b = b'"
proof (induction a arbitrary: a')
  case Nil
  then show ?case by (cases a') auto
next
  case (Cons x a)
  then show ?case by (cases a') auto
qed

lemma run_label_inj: "run_label g i = run_label g' i' \<Longrightarrow> g = g' \<and> i = i'"
proof -
  assume "run_label g i = run_label g' i'"
  then have "str g @ CHR ''_'' # str i = str g' @ CHR ''_'' # str i'"
    by (simp add: run_label_def)
  from split_at_separator [OF underscore_not_in_str underscore_not_in_str this]
  show ?thesis by (simp add: str_inj)
qed


subsection \<open>The arguments of the simulator calls\<close>

lemma run_args_append [simp]: "run_args (cs @ ds) = run_args cs @ run_args ds"
  by (induction cs rule: run_args.induct) simp_all

lemma collect_run_args:
  "collect (recorded_sim sim) (recorded_opt opt) mode g slots optimizer sols w = (r, w') \<Longrightarrow>
     \<exists>k\<le>length slots.
       run_args (calls w') = run_args (calls w) @ map (slot_run_args sim mode g) (take k slots)"
proof (induction slots arbitrary: sols w)
  case Nil
  then show ?case by simp
next
  case (Cons i slots)
  from Cons.prems show ?case
  proof (cases rule: recorded_collect_Cons_cases)
    case (ask_raised e e1)
    then have "run_args (calls w')
        = run_args (calls w) @ map (slot_run_args sim mode g) (take 0 (i # slots))"
      by simp
    then show ?thesis by blast
  next
    case (run_raised x e1 e e2)
    then have "run_args (calls w')
        = run_args (calls w) @ map (slot_run_args sim mode g) (take 1 (i # slots))"
      by (simp add: slot_run_args_def)
    moreover have "1 \<le> length (i # slots)" by simp
    ultimately show ?thesis by blast
  next
    case (evaluated x e1 f e2)
    from Cons.IH [OF evaluated(3)] obtain k where k: "k \<le> length slots"
      "run_args (calls w') = run_args (calls w) @ slot_run_args sim mode g i
         # map (slot_run_args sim mode g) (take k slots)"
      by (auto simp: slot_run_args_def)
    then have "Suc k \<le> length (i # slots) \<and> run_args (calls w')
        = run_args (calls w) @ map (slot_run_args sim mode g) (take (Suc k) (i # slots))"
      by simp
    then show ?thesis by blast
  qed
qed

lemma take_py_range: "k \<le> nat n \<Longrightarrow> take k (py_range n) = py_range (int k)"
  by (simp add: py_range_def take_map)

lemma generation_body_run_args:
  assumes "generation_body (recorded_sim sim) (recorded_opt opt) mode g optimizer w = (r, w')"
  shows "\<exists>k. run_args (calls w')
      = run_args (calls w) @ map (slot_run_args sim mode g) (py_range (int k))"
proof -
  have *: "\<exists>k. run_args (calls w1)
      = run_args (calls w) @ map (slot_run_args sim mode g) (py_range (int k))"
    if "collect (recorded_sim sim) (recorded_opt opt) mode g (py_range p) optimizer []
         (w\<lparr>env := (calls w @ [PopulationSize p], e0)\<rparr>) = (c, w1)" for c w1 p e0
  proof -
    from collect_run_args [OF that] obtain k where "k \<le> nat p"
      "run_args (calls w1)
        = run_args (calls w) @ map (slot_run_args sim mode g) (take k (py_range p))"
      by auto
    then show ?thesis by (auto simp: take_py_range)
  qed
  from assms show ?thesis
  proof (cases rule: recorded_generation_body_cases)
    case (collect_raised p e0 e)
    from * [OF collect_raised(2)] show ?thesis .
  next
    case (tell_raised p e0 sols w1 e e2)
    from * [OF tell_raised(2)] tell_raised(5) show ?thesis by simp
  next
    case (index_error p e0 sols w1 e2)
    from * [OF index_error(2)] index_error(5) show ?thesis by simp
  next
    case (completed p e0 sols w1 x f rest e2)
    from * [OF completed(2)] completed(5) show ?thesis by simp
  qed
qed

lemma generations_run_args:
  "generations (recorded_sim sim) (recorded_opt opt) mode gs optimizer w = (r, w') \<Longrightarrow>
     \<exists>ks. length ks \<le> length gs \<and>
       run_args (calls w') = run_args (calls w)
         @ concat (map2 (\<lambda>g k. map (slot_run_args sim mode g) (py_range (int k))) gs ks)"
proof (induction gs arbitrary: w)
  case Nil
  then have "length ([]::nat list) \<le> length ([]::int list) \<and>
       run_args (calls w') = run_args (calls w)
         @ concat (map2 (\<lambda>g k. map (slot_run_args sim mode g) (py_range (int k))) [] [])"
    by simp
  then show ?case by blast
next
  case (Cons g gs)
  obtain b w1 where b:
    "generation_body (recorded_sim sim) (recorded_opt opt) mode g optimizer w = (b, w1)"
    by (cases "generation_body (recorded_sim sim) (recorded_opt opt) mode g optimizer w")
  from generation_body_run_args [OF b] obtain k where k:
    "run_args (calls w1) = run_args (calls w) @ map (slot_run_args sim mode g) (py_range (int k))"
    by blast
  show ?case
  proof (cases b)
    case (Some e)
    with Cons.prems b have "w' = w1" by simp
    with k have "length [k] \<le> length (g # gs) \<and>
       run_args (calls w') = run_args (calls w)
         @ concat (map2 (\<lambda>g k. map (slot_run_args sim mode g) (py_range (int k))) (g # gs) [k])"
      by simp
    then show ?thesis by blast
  next
    case None
    with Cons.prems b have
      "generations (recorded_sim sim) (recorded_opt opt) mode gs optimizer w1 = (r, w')"
      by simp
    from Cons.IH [OF this] obtain ks where "length ks \<le> length gs"
      "run_args (calls w') = run_args (calls w1)
         @ concat (map2 (\<lambda>g k. map (slot_run_args sim mode g) (py_range (int k))) gs ks)"
      by blast
    with k have "length (k # ks) \<le> length (g # gs) \<and>
       run_args (calls w') = run_args (calls w)
         @ concat (map2 (\<lambda>g k. map (slot_run_args sim mode g) (py_range (int k))) (g # gs) (k # ks))"
      by simp
    then show ?thesis by blast
  qed
qed

lemma run_run_args:
  assumes "run_cma_es (recorded_sim sim) (recorded_opt opt) mode gens sigma_val w = (r, w')"
  shows "\<exists>ks. length ks \<le> nat gens \<and>
     run_args (new_calls w w')
       = concat (map2 (\<lambda>g k. map (slot_run_args sim mode g) (py_range (int k))) (py_range gens) ks)"
proof -
  from run_structure [OF assms] obtain cs where cs: "calls w' = calls w @ cs" by blast
  then have n: "new_calls w w' = cs" by simp
  from assms show ?thesis
  proof (cases rule: recorded_run_cma_es_cases)
    case (init_raised e e1)
    with cs have "cs = [Init (initial_mean sim) sigma_val]" by simp
    with n have "length ([]::nat list) \<le> nat gens \<and> run_args (new_calls w w')
       = concat (map2 (\<lambda>g k. map (slot_run_args sim mode g) (py_range (int k))) (py_range gens) [])"
      by simp
    then show ?thesis by blast
  next
    case (looped optimizer e1)
    from generations_run_args [OF looped(2)] obtain ks where ks: "length ks \<le> nat gens"
      "run_args (calls w') = run_args (calls w)
         @ concat (map2 (\<lambda>g k. map (slot_run_args sim mode g) (py_range (int k))) (py_range gens) ks)"
      by auto
    from ks(2) cs have "run_args cs
        = concat (map2 (\<lambda>g k. map (slot_run_args sim mode g) (py_range (int k))) (py_range gens) ks)"
      by simp
    with ks(1) n show ?thesis by blast
  qed
qed

lemma distinct_py_range: "distinct (py_range n)"
  by (simp add: py_range_def distinct_map)

lemma distinct_generation_labels:
  "distinct gs \<Longrightarrow>
     distinct (concat (map2 (\<lambda>g k. map (run_label g) (py_range (int k))) gs ks))"
proof (induction gs arbitrary: ks)
  case Nil
  then show ?case by simp
next
  case (Cons g gs)
  show ?case
  proof (cases ks)
    case Nil
    then show ?thesis by simp
  next
    case ks: (Cons k ks')
    have "distinct (map (run_label g) (py_range (int k)))"
      by (auto simp: distinct_map distinct_py_range inj_on_def dest: run_label_inj)
    moreover from Cons.prems Cons.IH have
      "distinct (concat (map2 (\<lambda>g k. map (run_label g) (py_range (int k))) gs ks'))"
      by simp
    moreover have "set (map (run_label g) (py_range (int k)))
        \<inter> set (concat (map2 (\<lambda>g k. map (run_label g) (py_range (int k))) gs ks')) = {}"
    proof (rule ccontr)
      assume "\<not> ?thesis"
      then obtain i g' i' where "run_label g i = run_label g' i'" "g' \<in> set gs"
        by (auto dest: set_zip_leftD)
      with run_label_inj Cons.prems show False by force
    qed
    ultimately show ?thesis using ks by simp
  qed
qed

lemma labels_of_slot_run_args:
  "map (snd \<circ> snd)
     (concat (map2 (\<lambda>g k. map (slot_run_args sim mode g) (py_range (int k))) gs ks))
   = concat (map2 (\<lambda>g k. map (run_label g) (py_range (int k))) gs ks)"
proof (induction gs arbitrary: ks)
  case Nil
  show ?case by simp
next
  case (Cons g gs)
  have "map (snd \<circ> snd) (map (slot_run_args sim mode g) slots) = map (run_label g) slots"
    for slots
    by (simp add: slot_run_args_def)
  with Cons.IH show ?case
    by (cases ks) simp_all
qed

lemma cell_strings_numbers [simp]: "cell_strings (map CFloat xs) = []"
  by (induction xs) simp_all

lemma cell_strings_generation_row [simp]: "cell_strings (generation_row g t) = []"
  by (simp add: generation_row_def split: list.splits)

lemma cell_strings_generation_rows:
  "concat (map cell_strings (map2 generation_row gs info)) = []"
  by (induction gs arbitrary: info) (auto split: list.splits)

text \<open>
  Claim C7. The labels given to the simulator during a run are, generation after
  generation, \<open>run_label g 0\<close>, \<open>run_label g 1\<close>, ... for the slots evaluated, each
  together with the iteration budget and the mode; two labels are equal only if
  generation and slot are, so no label occurs twice in a run. The label goes nowhere
  else: of the calls, only \<open>sim.run\<close> takes strings, the printed lines hold none, and
  the only strings in the file are those of the header row, written before the first
  label is built. The outcome, the file and the output are the same when no record of
  the calls is kept.
\<close>

theorem run_labels_identify_slots:
  assumes "run_cma_es (recorded_sim sim) (recorded_opt opt) mode gens sigma_val w = (r, w')"
  shows "(\<exists>ks. length ks \<le> nat gens \<and>
       run_args (new_calls w w')
         = concat (map2 (\<lambda>g k. map (\<lambda>i. (NUM_ITERS sim, mode, run_label g i)) (py_range (int k)))
             (py_range gens) ks)) \<and>
     distinct (map (snd \<circ> snd) (run_args (new_calls w w'))) \<and>
     (\<forall>g i g' i'. run_label g i = run_label g' i' \<longrightarrow> g = g' \<and> i = i') \<and>
     hd (output_csv w') = csv_header sim \<and>
     concat (map cell_strings (output_csv w')) = cell_strings (csv_header sim) \<and>
     run_cma_es sim opt mode gens sigma_val (unrecorded w) = (r, unrecorded w')"
proof (intro conjI)
  from run_run_args [OF assms] obtain ks where ks: "length ks \<le> nat gens"
    "run_args (new_calls w w')
       = concat (map2 (\<lambda>g k. map (slot_run_args sim mode g) (py_range (int k))) (py_range gens) ks)"
    by blast
  have "slot_run_args sim mode = (\<lambda>g i. (NUM_ITERS sim, mode, run_label g i))"
    by (simp add: slot_run_args_def fun_eq_iff)
  with ks show "\<exists>ks. length ks \<le> nat gens \<and>
       run_args (new_calls w w')
         = concat (map2 (\<lambda>g k. map (\<lambda>i. (NUM_ITERS sim, mode, run_label g i)) (py_range (int k)))
             (py_range gens) ks)"
    by auto
  from ks(2) have "map (snd \<circ> snd) (run_args (new_calls w w'))
         = concat (map2 (\<lambda>g k. map (run_label g) (py_range (int k))) (py_range gens) ks)"
    by (simp only: labels_of_slot_run_args)
  then show "distinct (map (snd \<circ> snd) (run_args (new_calls w w')))"
    by (simp only: distinct_generation_labels [OF distinct_py_range])
next
  show "\<forall>g i g' i'. run_label g i = run_label g' i' \<longrightarrow> g = g' \<and> i = i'"
    using run_label_inj by blast
next
  from run_structure [OF assms] obtain info where
    rows: "output_csv w' = csv_header sim # map2 generation_row (py_range gens) info"
    by blast
  then show "hd (output_csv w') = csv_header sim" by simp
  from rows have "concat (map cell_strings (output_csv w'))
      = cell_strings (csv_header sim)
        @ concat (map cell_strings (map2 generation_row (py_range gens) info))"
    by simp
  then show "concat (map cell_strings (output_csv w')) = cell_strings (csv_header sim)"
    by (simp only: cell_strings_generation_rows append_Nil2)
next
  from run_unrecorded [OF assms]
  show "run_cma_es sim opt mode gens sigma_val (unrecorded w) = (r, unrecorded w')" .
qed

theorem run_labels_identify_slots_witness:
  "run_cma_es (recorded_sim demo_sim) (recorded_opt demo_opt) ''h'' 2 1 demo_world
     = (None, demo_final) \<and>
   run_args (new_calls demo_world demo_final)
     = [(5, ''h'', ''0_0''), (5, ''h'', ''0_1''), (5, ''h'', ''1_0''), (5, ''h'', ''1_1'')] \<and>
   distinct (map (snd \<circ> snd) (run_args (new_calls demo_world demo_final))) \<and>
   concat (map cell_strings (output_csv demo_final)) = cell_strings (csv_header demo_sim) \<and>
   (\<exists>ks. length ks \<le> nat 2 \<and>
       run_args (new_calls demo_world demo_final)
         = concat (map2 (\<lambda>g k. map (\<lambda>i. (NUM_ITERS demo_sim, ''h'', run_label g i))
             (py_range (int k))) (py_range 2) ks))"
proof -
  have "run_args (new_calls demo_world demo_final)
     = [(5, ''h'', ''0_0''), (5, ''h'', ''0_1''), (5, ''h'', ''1_0''), (5, ''h'', ''1_1'')]"
    by (simp add: new_calls_def calls_def demo_world_def demo_final_def)
  with demo_run run_labels_identify_slots [OF demo_run] show ?thesis by blast
qed

subsection \<open>The mode\<close>

lemma mode_blind_simps [simp]:
  "NUM_ITERS (mode_blind sim mode) = NUM_ITERS sim"
  "NUM_ACTUATORS (mode_blind sim mode) = NUM_ACTUATORS sim"
  "sim_run (mode_blind sim mode) e iters x m label = sim_run sim e iters x mode label"
  "csv_header (mode_blind sim mode) = csv_header sim"
  "initial_mean (mode_blind sim mode) = initial_mean sim"
  by (simp_all add: mode_blind_def csv_header_def initial_mean_def)

lemma recorded_equations:
  "sim_run (recorded_sim sim) le iters x m label =
     (case sim_run sim (snd le) iters x m label of
        (res, e') \<Rightarrow> (res, (fst le @ [Run iters x m label res], e')))"
  "ask (recorded_opt opt) le optimizer =
     (case ask opt (snd le) optimizer of (res, e') \<Rightarrow> (res, (fst le @ [Ask res], e')))"
  "tell (recorded_opt opt) le optimizer sols =
     (case tell opt (snd le) optimizer sols of
        (res, e') \<Rightarrow> (res, (fst le @ [Tell sols res], e')))"
  "population_size (recorded_opt opt) le optimizer =
     (case population_size opt (snd le) optimizer of
        (p, e') \<Rightarrow> (p, (fst le @ [PopulationSize p], e')))"
  "cma_init (recorded_opt opt) le mean sigma =
     (case cma_init opt (snd le) mean sigma of
        (res, e') \<Rightarrow> (res, (fst le @ [Init mean sigma], e')))"
  by (simp_all add: recorded_sim_def recorded_opt_def)

lemma collect_mode_blind:
  "collect (recorded_sim sim) (recorded_opt opt) mode g slots optimizer sols w = (r, w') \<Longrightarrow>
     collect (recorded_sim (mode_blind sim mode)) (recorded_opt opt) mode' g slots optimizer sols
         (w\<lparr>env := (c, snd (env w))\<rparr>)
       = (r, w'\<lparr>env := (c @ map (with_mode mode') (new_calls w w'), snd (env w'))\<rparr>)"
proof (induction slots arbitrary: sols w c)
  case Nil
  then show ?case by (auto simp: new_calls_def)
next
  case (Cons i slots)
  from Cons.prems show ?case
  proof (cases rule: recorded_collect_Cons_cases)
    case (ask_raised e e1)
    then show ?thesis by (simp add: recorded_equations new_calls_def)
  next
    case (run_raised x e1 e e2)
    then show ?thesis by (simp add: recorded_equations new_calls_def)
  next
    case (evaluated x e1 f e2)
    let ?w2 = "w\<lparr>env := (calls w @
               [Ask (Inr x), Run (NUM_ITERS sim) x mode (run_label g i) (Inr f)], e2)\<rparr>"
    let ?c2 = "c @ [Ask (Inr x), Run (NUM_ITERS sim) x mode' (run_label g i) (Inr f)]"
    from collect_calls [OF evaluated(3)] obtain ds where ds: "calls w' = calls ?w2 @ ds"
      by blast
    have nc: "new_calls w w'
        = [Ask (Inr x), Run (NUM_ITERS sim) x mode (run_label g i) (Inr f)] @ new_calls ?w2 w'"
      by (rule new_calls_trans [OF _ ds]) simp
    have weq: "?w2\<lparr>env := (?c2, snd (env ?w2))\<rparr> = w\<lparr>env := (?c2, e2)\<rparr>"
      by simp
    have "collect (recorded_sim (mode_blind sim mode)) (recorded_opt opt) mode' g (i # slots)
            optimizer sols (w\<lparr>env := (c, snd (env w))\<rparr>)
        = collect (recorded_sim (mode_blind sim mode)) (recorded_opt opt) mode' g slots
            optimizer (sols @ [(x, f)]) (w\<lparr>env := (?c2, e2)\<rparr>)"
      using evaluated(1,2) by (simp add: recorded_equations)
    also have "\<dots> = (r, w'\<lparr>env := (?c2 @ map (with_mode mode') (new_calls ?w2 w'),
        snd (env w'))\<rparr>)"
      using Cons.IH [OF evaluated(3), of ?c2] unfolding weq .
    also have "w'\<lparr>env := (?c2 @ map (with_mode mode') (new_calls ?w2 w'), snd (env w'))\<rparr>
        = w'\<lparr>env := (c @ map (with_mode mode') (new_calls w w'), snd (env w'))\<rparr>"
      unfolding nc by simp
    finally show ?thesis .
  qed
qed

lemma generation_body_mode_blind:
  assumes "generation_body (recorded_sim sim) (recorded_opt opt) mode g optimizer w = (r, w')"
  shows "generation_body (recorded_sim (mode_blind sim mode)) (recorded_opt opt) mode' g
         optimizer (w\<lparr>env := (c, snd (env w))\<rparr>)
       = (r, w'\<lparr>env := (c @ map (with_mode mode') (new_calls w w'), snd (env w'))\<rparr>)"
proof -
  have blind: "\<exists>ds. calls w1 = calls w @ PopulationSize p # ds \<and>
      collect (recorded_sim (mode_blind sim mode)) (recorded_opt opt) mode' g
        (py_range p) optimizer [] (w\<lparr>env := (c @ [PopulationSize p], e0)\<rparr>)
      = (res, w1\<lparr>env := (c @ PopulationSize p # map (with_mode mode') ds, snd (env w1))\<rparr>)"
    if c: "collect (recorded_sim sim) (recorded_opt opt) mode g (py_range p) optimizer []
         (w\<lparr>env := (calls w @ [PopulationSize p], e0)\<rparr>) = (res, w1)"
    for res w1 p e0
  proof -
    let ?w0 = "w\<lparr>env := (calls w @ [PopulationSize p], e0)\<rparr>"
    from collect_calls [OF c] obtain ds where ds: "calls w1 = calls ?w0 @ ds"
      by blast
    then have n: "new_calls ?w0 w1 = ds"
      by (rule new_calls_append)
    have weq: "?w0\<lparr>env := (c @ [PopulationSize p], snd (env ?w0))\<rparr>
        = w\<lparr>env := (c @ [PopulationSize p], e0)\<rparr>"
      by simp
    from collect_mode_blind [OF c, of mode' "c @ [PopulationSize p]"]
    have "collect (recorded_sim (mode_blind sim mode)) (recorded_opt opt) mode' g
        (py_range p) optimizer [] (w\<lparr>env := (c @ [PopulationSize p], e0)\<rparr>)
      = (res, w1\<lparr>env := (c @ PopulationSize p # map (with_mode mode') ds, snd (env w1))\<rparr>)"
      unfolding weq n by simp
    moreover from ds have "calls w1 = calls w @ PopulationSize p # ds"
      by simp
    ultimately show ?thesis by blast
  qed
  from assms show ?thesis
  proof (cases rule: recorded_generation_body_cases)
    case (collect_raised p e0 e)
    from blind [OF collect_raised(2)] obtain ds where
      ds: "calls w' = calls w @ PopulationSize p # ds" and
      b: "collect (recorded_sim (mode_blind sim mode)) (recorded_opt opt) mode' g
        (py_range p) optimizer [] (w\<lparr>env := (c @ [PopulationSize p], e0)\<rparr>)
      = (Inl e, w'\<lparr>env := (c @ PopulationSize p # map (with_mode mode') ds, snd (env w'))\<rparr>)"
      by blast
    from ds have n: "new_calls w w' = PopulationSize p # ds"
      by (rule new_calls_append)
    from collect_raised(1,3) b show ?thesis
      unfolding n by (simp add: generation_body_def recorded_equations del: new_calls_append)
  next
    case (tell_raised p e0 sols w1 e e2)
    from blind [OF tell_raised(2)] obtain ds where
      ds: "calls w1 = calls w @ PopulationSize p # ds" and
      b: "collect (recorded_sim (mode_blind sim mode)) (recorded_opt opt) mode' g
        (py_range p) optimizer [] (w\<lparr>env := (c @ [PopulationSize p], e0)\<rparr>)
      = (Inr sols, w1\<lparr>env := (c @ PopulationSize p # map (with_mode mode') ds, snd (env w1))\<rparr>)"
      by blast
    from ds tell_raised(5) have "calls w' = calls w @ (PopulationSize p # ds @ [Tell sols (Inl e)])"
      by simp
    then have n: "new_calls w w' = PopulationSize p # ds @ [Tell sols (Inl e)]"
      by (rule new_calls_append)
    from tell_raised(1,3,4,5) b show ?thesis
      unfolding n
      by (simp add: generation_body_def recorded_equations del: new_calls_append)
  next
    case (index_error p e0 sols w1 e2)
    from blind [OF index_error(2)] obtain ds where
      ds: "calls w1 = calls w @ PopulationSize p # ds" and
      b: "collect (recorded_sim (mode_blind sim mode)) (recorded_opt opt) mode' g
        (py_range p) optimizer [] (w\<lparr>env := (c @ [PopulationSize p], e0)\<rparr>)
      = (Inr sols, w1\<lparr>env := (c @ PopulationSize p # map (with_mode mode') ds, snd (env w1))\<rparr>)"
      by blast
    from ds index_error(5) have "calls w' = calls w @ (PopulationSize p # ds @ [Tell sols (Inr [])])"
      by simp
    then have n: "new_calls w w' = PopulationSize p # ds @ [Tell sols (Inr [])]"
      by (rule new_calls_append)
    from index_error(1,3,4,5) b show ?thesis
      unfolding n
      by (simp add: generation_body_def recorded_equations del: new_calls_append)
  next
    case (completed p e0 sols w1 x f rest e2)
    from blind [OF completed(2)] obtain ds where
      ds: "calls w1 = calls w @ PopulationSize p # ds" and
      b: "collect (recorded_sim (mode_blind sim mode)) (recorded_opt opt) mode' g
        (py_range p) optimizer [] (w\<lparr>env := (c @ [PopulationSize p], e0)\<rparr>)
      = (Inr sols, w1\<lparr>env := (c @ PopulationSize p # map (with_mode mode') ds, snd (env w1))\<rparr>)"
      by blast
    from ds completed(5) have
      "calls w' = calls w @ (PopulationSize p # ds @ [Tell sols (Inr ((x, f) # rest))])"
      by simp
    then have n: "new_calls w w' = PopulationSize p # ds @ [Tell sols (Inr ((x, f) # rest))]"
      by (rule new_calls_append)
    from completed(1,3,4,5) b show ?thesis
      unfolding n
      by (simp add: generation_body_def recorded_equations del: new_calls_append)
  qed
qed


lemma generations_calls:
  assumes "generations (recorded_sim sim) (recorded_opt opt) mode gs optimizer w = (r, w')"
  shows "\<exists>cs. calls w' = calls w @ cs"
proof -
  from generations_structure [OF assms] obtain info cs where
    "calls w' = calls w @ concat (map2 (generation_calls sim mode) gs info) @ cs"
    by blast
  then show ?thesis by blast
qed

lemma generation_body_calls:
  assumes "generation_body (recorded_sim sim) (recorded_opt opt) mode g optimizer w = (r, w')"
  shows "\<exists>cs. calls w' = calls w @ cs"
proof (cases r)
  case None
  from generation_body_completed [OF assms [unfolded None]] show ?thesis by blast
next
  case (Some e)
  from generation_body_raised [OF assms [unfolded Some]] show ?thesis by blast
qed

lemma generations_mode_blind:
  "generations (recorded_sim sim) (recorded_opt opt) mode gs optimizer w = (r, w') \<Longrightarrow>
     generations (recorded_sim (mode_blind sim mode)) (recorded_opt opt) mode' gs optimizer
         (w\<lparr>env := (c, snd (env w))\<rparr>)
       = (r, w'\<lparr>env := (c @ map (with_mode mode') (new_calls w w'), snd (env w'))\<rparr>)"
proof (induction gs arbitrary: w c)
  case Nil
  then show ?case by (auto simp: new_calls_def)
next
  case (Cons g gs)
  obtain b w1 where b:
    "generation_body (recorded_sim sim) (recorded_opt opt) mode g optimizer w = (b, w1)"
    by (cases "generation_body (recorded_sim sim) (recorded_opt opt) mode g optimizer w")
  note blind = generation_body_mode_blind [OF b, of mode' c]
  show ?case
  proof (cases b)
    case (Some e)
    with Cons.prems b have "r = Some e" "w' = w1" by simp_all
    with blind Some show ?thesis by (simp del: new_calls_append)
  next
    case None
    with Cons.prems b have rest:
      "generations (recorded_sim sim) (recorded_opt opt) mode gs optimizer w1 = (r, w')"
      by simp
    from generation_body_calls [OF b] obtain cs where cs: "calls w1 = calls w @ cs" by blast
    from generations_calls [OF rest] obtain ds where ds: "calls w' = calls w1 @ ds" by blast
    from cs have n1: "new_calls w w1 = cs" by (rule new_calls_append)
    from ds have n2: "new_calls w1 w' = ds" by (rule new_calls_append)
    from cs ds have "calls w' = calls w @ (cs @ ds)" by simp
    then have n: "new_calls w w' = cs @ ds" by (rule new_calls_append)
    let ?c1 = "c @ map (with_mode mode') cs"
    have weq: "w1\<lparr>env := (?c1, snd (env w1))\<rparr>\<lparr>env := (?c1, snd (env (w1\<lparr>env := (?c1, snd (env w1))\<rparr>)))\<rparr>
        = w1\<lparr>env := (?c1, snd (env w1))\<rparr>"
      by simp
    have "generations (recorded_sim (mode_blind sim mode)) (recorded_opt opt) mode' (g # gs)
          optimizer (w\<lparr>env := (c, snd (env w))\<rparr>)
        = generations (recorded_sim (mode_blind sim mode)) (recorded_opt opt) mode' gs
          optimizer (w1\<lparr>env := (?c1, snd (env w1))\<rparr>)"
      using blind None unfolding n1 by (simp del: new_calls_append)
    also have "\<dots> = (r, w'\<lparr>env := (?c1 @ map (with_mode mode') ds, snd (env w'))\<rparr>)"
      using Cons.IH [OF rest, of ?c1] unfolding n2 .
    also have "w'\<lparr>env := (?c1 @ map (with_mode mode') ds, snd (env w'))\<rparr>
        = w'\<lparr>env := (c @ map (with_mode mode') (new_calls w w'), snd (env w'))\<rparr>"
      unfolding n by simp
    finally show ?thesis .
  qed
qed

lemma run_mode_blind:
  assumes "run_cma_es (recorded_sim sim) (recorded_opt opt) mode gens sigma_val w = (r, w')"
  shows "run_cma_es (recorded_sim (mode_blind sim mode)) (recorded_opt opt) mode' gens sigma_val w
     = (r, w'\<lparr>env := (calls w @ map (with_mode mode') (new_calls w w'), snd (env w'))\<rparr>)"
  using assms
proof (cases rule: recorded_run_cma_es_cases)
  case (init_raised e e1)
  have n: "new_calls w w' = [Init (initial_mean sim) sigma_val]"
    using init_raised(3) by (intro new_calls_append) simp
  from init_raised(1) have
    "CMA (recorded_opt opt) (env w) (initial_mean sim) sigma_val
       = (Inl e, (calls w @ [Init (initial_mean sim) sigma_val], e1))"
    unfolding recorded_CMA calls_def by simp
  with init_raised(2,3) show ?thesis
    unfolding n by (simp add: run_cma_es_def del: new_calls_append)
next
  case (looped optimizer e1)
  let ?c = "calls w @ [Init (initial_mean sim) sigma_val]"
  let ?w2 = "w\<lparr>output_csv := [csv_header sim], env := (?c, e1)\<rparr>"
  from generations_calls [OF looped(2)] obtain ds where ds: "calls w' = calls ?w2 @ ds"
    by blast
  then have n2: "new_calls ?w2 w' = ds" by (rule new_calls_append)
  from ds have "calls w' = calls w @ (Init (initial_mean sim) sigma_val # ds)" by simp
  then have n: "new_calls w w' = Init (initial_mean sim) sigma_val # ds"
    by (rule new_calls_append)
  have weq: "?w2\<lparr>env := (?c, snd (env ?w2))\<rparr> = ?w2"
    by simp
  from generations_mode_blind [OF looped(2), of mode' ?c]
  have g: "generations (recorded_sim (mode_blind sim mode)) (recorded_opt opt) mode'
        (py_range gens) optimizer ?w2
      = (r, w'\<lparr>env := (calls w @ map (with_mode mode') (new_calls w w'), snd (env w'))\<rparr>)"
    unfolding weq n2 n by simp
  from looped(1) have
    "CMA (recorded_opt opt) (env w) (initial_mean sim) sigma_val = (Inr optimizer, (?c, e1))"
    unfolding recorded_CMA calls_def by simp
  with g show ?thesis
    by (simp add: run_cma_es_def del: new_calls_append)
qed

lemma modes_of_slot_run_args:
  "a \<in> set (concat (map2 (\<lambda>g k. map (slot_run_args sim mode g) (py_range (int k))) gs ks))
     \<Longrightarrow> fst (snd a) = mode"
  by (auto simp: slot_run_args_def dest!: set_zip_leftD)

lemma unrecorded_calls_replaced [simp]:
  "unrecorded (w\<lparr>env := (cs, snd (env w))\<rparr>) = unrecorded w"
  by (simp add: unrecorded_def)

text \<open>
  Claim C6. Whatever string the mode is, every call of \<open>sim.run\<close> of the run is given
  exactly that string. Nothing else depends on it: against a simulator that behaves as
  under \<open>mode\<close> whatever it is given, a run with any other string \<open>mode'\<close> has the same
  outcome, file, output and environment, and makes the same calls, \<open>mode'\<close> taking
  the place of \<open>mode\<close> in the arguments of \<open>sim.run\<close>; and so it is when no record of the
  calls is kept.
\<close>

theorem mode_is_only_forwarded:
  assumes "run_cma_es (recorded_sim sim) (recorded_opt opt) mode gens sigma_val w = (r, w')"
  shows "(\<forall>a \<in> set (run_args (new_calls w w')). fst (snd a) = mode) \<and>
     (\<forall>mode'. run_cma_es (recorded_sim (mode_blind sim mode)) (recorded_opt opt) mode'
          gens sigma_val w
        = (r, w'\<lparr>env := (calls w @ map (with_mode mode') (new_calls w w'), snd (env w'))\<rparr>)) \<and>
     (\<forall>mode'. run_cma_es (mode_blind sim mode) opt mode' gens sigma_val (unrecorded w)
        = (r, unrecorded w'))"
proof (intro conjI allI ballI)
  fix a assume "a \<in> set (run_args (new_calls w w'))"
  moreover from run_run_args [OF assms] obtain ks where
    "run_args (new_calls w w')
       = concat (map2 (\<lambda>g k. map (slot_run_args sim mode g) (py_range (int k))) (py_range gens) ks)"
    by blast
  ultimately show "fst (snd a) = mode"
    by (simp only: modes_of_slot_run_args)
next
  fix mode'
  from run_mode_blind [OF assms]
  show "run_cma_es (recorded_sim (mode_blind sim mode)) (recorded_opt opt) mode' gens sigma_val w
        = (r, w'\<lparr>env := (calls w @ map (with_mode mode') (new_calls w w'), snd (env w'))\<rparr>)" .
next
  fix mode'
  from run_unrecorded [OF run_mode_blind [OF assms, of mode']]
  show "run_cma_es (mode_blind sim mode) opt mode' gens sigma_val (unrecorded w)
        = (r, unrecorded w')"
    by (simp only: unrecorded_calls_replaced)
qed

theorem mode_is_only_forwarded_witness:
  "run_cma_es (recorded_sim demo_sim) (recorded_opt demo_opt) ''h'' 2 1 demo_world
     = (None, demo_final) \<and>
   map (fst \<circ> snd) (run_args (new_calls demo_world demo_final)) = [''h'', ''h'', ''h'', ''h''] \<and>
   list_all (\<lambda>a. fst (snd a) = ''h'') (run_args (new_calls demo_world demo_final)) \<and>
   run_cma_es (recorded_sim (mode_blind demo_sim ''h'')) (recorded_opt demo_opt) ''turbo'' 2 1
       demo_world
     = (None, demo_final\<lparr>env := (calls demo_world
          @ map (with_mode ''turbo'') (new_calls demo_world demo_final), snd (env demo_final))\<rparr>) \<and>
   run_cma_es (mode_blind demo_sim ''h'') demo_opt ''turbo'' 2 1 (unrecorded demo_world)
     = (None, unrecorded demo_final)"
proof -
  note t = mode_is_only_forwarded [OF demo_run]
  have "map (fst \<circ> snd) (run_args (new_calls demo_world demo_final)) = [''h'', ''h'', ''h'', ''h'']"
    by (simp add: new_calls_def calls_def demo_world_def demo_final_def)
  moreover from t have
    "list_all (\<lambda>a. fst (snd a) = ''h'') (run_args (new_calls demo_world demo_final))"
    unfolding list_all_iff by blast
  moreover from t have
    "run_cma_es (recorded_sim (mode_blind demo_sim ''h'')) (recorded_opt demo_opt) ''turbo'' 2 1
       demo_world
     = (None, demo_final\<lparr>env := (calls demo_world
          @ map (with_mode ''turbo'') (new_calls demo_world demo_final), snd (env demo_final))\<rparr>)"
    by blast
  moreover from t have
    "run_cma_es (mode_blind demo_sim ''h'') demo_opt ''turbo'' 2 1 (unrecorded demo_world)
     = (None, unrecorded demo_final)"
    by blast
  ultimately show ?thesis using demo_run by blast
qed

end
